theory Spec2Isabelle
  imports Complex_Main "HOL-Library.Monad_Syntax"
begin

section \<open>Arrays\<close>

text \<open>
  The notebook computes on numpy float64 arrays. An array is modelled by its shape and
  its elements, the elements being real numbers: rounding, overflow and NaN are outside
  the model. The rank of every argument is the one its docstring gives (a bias is 1-D,
  a state or a weight is 2-D, a sequence is 3-D); the extents are data, so an operation
  on extents that do not fit raises in numpy and is \<open>None\<close> here. numpy's broadcasting
  of an extent of 1 is modelled.
\<close>

type_synonym vec = "real list"

record mat =
  nrows :: nat
  ncols :: nat
  rows :: "real list list"

record ten3 =
  dim0 :: nat
  dim1 :: nat
  dim2 :: nat
  slabs :: "real list list list"

definition mk_vec :: "nat \<Rightarrow> (nat \<Rightarrow> real) \<Rightarrow> vec" where
  "mk_vec n f = map f [0..<n]"

definition mk_mat :: "nat \<Rightarrow> nat \<Rightarrow> (nat \<Rightarrow> nat \<Rightarrow> real) \<Rightarrow> mat" where
  "mk_mat n m f = \<lparr>nrows = n, ncols = m, rows = map (\<lambda>i. map (f i) [0..<m]) [0..<n]\<rparr>"

definition mk_ten :: "nat \<Rightarrow> nat \<Rightarrow> nat \<Rightarrow> (nat \<Rightarrow> nat \<Rightarrow> nat \<Rightarrow> real) \<Rightarrow> ten3" where
  "mk_ten n t d f =
     \<lparr>dim0 = n, dim1 = t, dim2 = d,
      slabs = map (\<lambda>i. map (\<lambda>j. map (f i j) [0..<d]) [0..<t]) [0..<n]\<rparr>"

definition el :: "mat \<Rightarrow> nat \<Rightarrow> nat \<Rightarrow> real" where
  "el A i j = rows A ! i ! j"

definition el3 :: "ten3 \<Rightarrow> nat \<Rightarrow> nat \<Rightarrow> nat \<Rightarrow> real" where
  "el3 X i j k = slabs X ! i ! j ! k"

definition wf_mat :: "mat \<Rightarrow> bool" where
  "wf_mat A \<longleftrightarrow> length (rows A) = nrows A \<and> list_all (\<lambda>r. length r = ncols A) (rows A)"

definition wf_ten :: "ten3 \<Rightarrow> bool" where
  "wf_ten X \<longleftrightarrow>
     length (slabs X) = dim0 X \<and>
     list_all (\<lambda>s. length s = dim1 X \<and> list_all (\<lambda>r. length r = dim2 X) s) (slabs X)"

definition has_shape :: "mat \<Rightarrow> nat \<Rightarrow> nat \<Rightarrow> bool" where
  "has_shape A n m \<longleftrightarrow> nrows A = n \<and> ncols A = m \<and> wf_mat A"

definition has_shape3 :: "ten3 \<Rightarrow> nat \<Rightarrow> nat \<Rightarrow> nat \<Rightarrow> bool" where
  "has_shape3 X n t d \<longleftrightarrow> dim0 X = n \<and> dim1 X = t \<and> dim2 X = d \<and> wf_ten X"

text \<open>\<open>np.zeros((n, m))\<close>, \<open>np.zeros(n)\<close>, \<open>np.zeros((n, t, d))\<close>, \<open>np.zeros_like(A)\<close>.\<close>

definition zeros :: "nat \<Rightarrow> nat \<Rightarrow> mat" where
  "zeros n m = mk_mat n m (\<lambda>i j. 0)"

definition zeros1 :: "nat \<Rightarrow> vec" where
  "zeros1 n = mk_vec n (\<lambda>j. 0)"

definition zeros3 :: "nat \<Rightarrow> nat \<Rightarrow> nat \<Rightarrow> ten3" where
  "zeros3 n t d = mk_ten n t d (\<lambda>i j k. 0)"

definition zeros_like :: "mat \<Rightarrow> mat" where
  "zeros_like A = zeros (nrows A) (ncols A)"

text \<open>An elementwise function of one array (\<open>np.tanh(A)\<close>, \<open>1 - A\<close>, \<open>A**2\<close>).\<close>

definition map_mat :: "(real \<Rightarrow> real) \<Rightarrow> mat \<Rightarrow> mat" where
  "map_mat g A = mk_mat (nrows A) (ncols A) (\<lambda>i j. g (el A i j))"

text \<open>
  Broadcasting: two extents fit when they are equal or one of them is 1, and an axis of
  extent 1 is read at index 0 whatever the index.
\<close>

definition bshape :: "nat \<Rightarrow> nat \<Rightarrow> nat option" where
  "bshape a b = (if a = b then Some a else if a = 1 then Some b
                 else if b = 1 then Some a else None)"

definition bel :: "mat \<Rightarrow> nat \<Rightarrow> nat \<Rightarrow> real" where
  "bel A i j = el A (if nrows A = 1 then 0 else i) (if ncols A = 1 then 0 else j)"

definition bc2 :: "(real \<Rightarrow> real \<Rightarrow> real) \<Rightarrow> mat \<Rightarrow> mat \<Rightarrow> mat option" where
  "bc2 g A B = do {
     n \<leftarrow> bshape (nrows A) (nrows B);
     m \<leftarrow> bshape (ncols A) (ncols B);
     Some (mk_mat n m (\<lambda>i j. g (bel A i j) (bel B i j)))
   }"

definition add_m :: "mat \<Rightarrow> mat \<Rightarrow> mat option" where
  "add_m = bc2 (+)"

definition mul_m :: "mat \<Rightarrow> mat \<Rightarrow> mat option" where
  "mul_m = bc2 (*)"

text \<open>A 1-D array met by a 2-D one is broadcast as a single row.\<close>

definition row_mat :: "vec \<Rightarrow> mat" where
  "row_mat b = mk_mat 1 (length b) (\<lambda>i j. b ! j)"

definition add_row :: "mat \<Rightarrow> vec \<Rightarrow> mat option" where
  "add_row A b = add_m A (row_mat b)"

text \<open>\<open>A.dot(B)\<close> of two 2-D arrays: the inner extents must be equal.\<close>

definition dot :: "mat \<Rightarrow> mat \<Rightarrow> mat option" where
  "dot A B = (if ncols A = nrows B
              then Some (mk_mat (nrows A) (ncols B) (\<lambda>i j. \<Sum>k<ncols A. el A i k * el B k j))
              else None)"

definition transpose_m :: "mat \<Rightarrow> mat" where
  "transpose_m A = mk_mat (ncols A) (nrows A) (\<lambda>i j. el A j i)"

text \<open>\<open>np.sum(A, axis=0)\<close>.\<close>

definition sum_axis0 :: "mat \<Rightarrow> vec" where
  "sum_axis0 A = mk_vec (ncols A) (\<lambda>j. \<Sum>i<nrows A. el A i j)"

text \<open>
  \<open>A[:, lo:hi]\<close> with non-negative bounds: a slice never raises, its bounds are clipped
  to the extent. \<open>A[:, lo:]\<close> is \<open>slice_cols lo (ncols A) A\<close>.
\<close>

definition slice_start :: "nat \<Rightarrow> mat \<Rightarrow> nat" where
  "slice_start lo A = min lo (ncols A)"

definition slice_width :: "nat \<Rightarrow> nat \<Rightarrow> mat \<Rightarrow> nat" where
  "slice_width lo hi A = min hi (ncols A) - min lo (ncols A)"

definition slice_cols :: "nat \<Rightarrow> nat \<Rightarrow> mat \<Rightarrow> mat" where
  "slice_cols lo hi A =
     mk_mat (nrows A) (slice_width lo hi A) (\<lambda>i j. el A i (slice_start lo A + j))"

text \<open>
  An assignment into a view or an in-place operator keeps the target's shape: the value
  must broadcast to it.
\<close>

definition fits :: "mat \<Rightarrow> nat \<Rightarrow> nat \<Rightarrow> bool" where
  "fits V n m \<longleftrightarrow> (nrows V = n \<or> nrows V = 1) \<and> (ncols V = m \<or> ncols V = 1)"

text \<open>\<open>A[:, lo:hi] = V\<close>.\<close>

definition set_cols :: "nat \<Rightarrow> nat \<Rightarrow> mat \<Rightarrow> mat \<Rightarrow> mat option" where
  "set_cols lo hi A V =
     (if fits V (nrows A) (slice_width lo hi A)
      then Some (mk_mat (nrows A) (ncols A)
             (\<lambda>i j. if slice_start lo A \<le> j \<and> j < slice_start lo A + slice_width lo hi A
                    then bel V i (j - slice_start lo A) else el A i j))
      else None)"

text \<open>\<open>A += V\<close> on 2-D and on 1-D arrays.\<close>

definition iadd :: "mat \<Rightarrow> mat \<Rightarrow> mat option" where
  "iadd A V =
     (if fits V (nrows A) (ncols A)
      then Some (mk_mat (nrows A) (ncols A) (\<lambda>i j. el A i j + bel V i j))
      else None)"

definition iadd_v :: "vec \<Rightarrow> vec \<Rightarrow> vec option" where
  "iadd_v a v =
     (if length v = length a \<or> length v = 1
      then Some (mk_vec (length a) (\<lambda>j. a ! j + v ! (if length v = 1 then 0 else j)))
      else None)"

text \<open>
  The time axis of a 3-D array: \<open>X[:, t, :]\<close> (an index out of range raises),
  \<open>X[:, t, :] = V\<close>, \<open>X[:, t, :] += V\<close> and \<open>X[:, 1:, :]\<close>.
\<close>

definition view_t :: "ten3 \<Rightarrow> nat \<Rightarrow> mat" where
  "view_t X t = mk_mat (dim0 X) (dim2 X) (\<lambda>i k. el3 X i t k)"

definition slice_t :: "ten3 \<Rightarrow> nat \<Rightarrow> mat option" where
  "slice_t X t = (if t < dim1 X then Some (view_t X t) else None)"

definition set_t :: "ten3 \<Rightarrow> nat \<Rightarrow> mat \<Rightarrow> ten3 option" where
  "set_t X t V =
     (if t < dim1 X \<and> fits V (dim0 X) (dim2 X)
      then Some (mk_ten (dim0 X) (dim1 X) (dim2 X)
             (\<lambda>i j k. if j = t then bel V i k else el3 X i j k))
      else None)"

definition iadd_t :: "ten3 \<Rightarrow> nat \<Rightarrow> mat \<Rightarrow> ten3 option" where
  "iadd_t X t V =
     (if t < dim1 X \<and> fits V (dim0 X) (dim2 X)
      then Some (mk_ten (dim0 X) (dim1 X) (dim2 X)
             (\<lambda>i j k. if j = t then el3 X i j k + bel V i k else el3 X i j k))
      else None)"

definition drop_first_t :: "ten3 \<Rightarrow> ten3" where
  "drop_first_t X = mk_ten (dim0 X) (dim1 X - 1) (dim2 X) (\<lambda>i j k. el3 X i (j + 1) k)"

section \<open>The stable sigmoid\<close>

text \<open>
  \<open>sigmoid\<close> works through boolean masks; element by element, \<open>z\<close> starts at 0 and is
  overwritten under \<open>pos_mask\<close> and under \<open>neg_mask\<close>, \<open>top\<close> starts at 1 and is
  overwritten under \<open>neg_mask\<close>. \<open>sigmoid_exp_arg\<close> is the argument the one call of
  \<open>np.exp\<close> that reaches an element receives.
\<close>

definition pos_mask :: "real \<Rightarrow> bool" where
  "pos_mask x \<longleftrightarrow> x \<ge> 0"

definition neg_mask :: "real \<Rightarrow> bool" where
  "neg_mask x \<longleftrightarrow> x < 0"

definition sigmoid_exp_arg :: "real \<Rightarrow> real" where
  "sigmoid_exp_arg x = (if neg_mask x then x else - x)"

definition sigmoid_z :: "real \<Rightarrow> real" where
  "sigmoid_z x = (if neg_mask x then exp x else if pos_mask x then exp (- x) else 0)"

definition sigmoid_top :: "real \<Rightarrow> real" where
  "sigmoid_top x = (if neg_mask x then sigmoid_z x else 1)"

definition sigmoid1 :: "real \<Rightarrow> real" where
  "sigmoid1 x = sigmoid_top x / (1 + sigmoid_z x)"

definition sigmoid :: "mat \<Rightarrow> mat" where
  "sigmoid A = map_mat sigmoid1 A"

section \<open>One timestep\<close>

record cache =
  c_x :: mat
  c_prev_h :: mat
  c_prev_c :: mat
  c_next_h :: mat
  c_next_c :: mat
  c_Wx :: mat
  c_Wh :: mat
  c_b :: vec
  c_activation :: mat
  c_input :: mat
  c_forget :: mat
  c_output :: mat
  c_block_input :: mat

definition lstm_step_forward ::
  "mat \<Rightarrow> mat \<Rightarrow> mat \<Rightarrow> mat \<Rightarrow> mat \<Rightarrow> vec \<Rightarrow> (mat \<times> mat \<times> cache) option" where
  "lstm_step_forward x prev_h prev_c Wx Wh b = do {
     let H = ncols prev_h;
     xw \<leftarrow> dot x Wx;
     hw \<leftarrow> dot prev_h Wh;
     s \<leftarrow> add_m xw hw;
     activation \<leftarrow> add_row s b;
     let input = sigmoid (slice_cols 0 H activation);
     let forget = sigmoid (slice_cols H (2 * H) activation);
     let output = sigmoid (slice_cols (2 * H) (3 * H) activation);
     let block_input = map_mat tanh (slice_cols (3 * H) (ncols activation) activation);
     fc \<leftarrow> mul_m forget prev_c;
     ig \<leftarrow> mul_m input block_input;
     next_c \<leftarrow> add_m fc ig;
     next_h \<leftarrow> mul_m output (map_mat tanh next_c);
     Some (next_h, next_c,
       \<lparr>c_x = x, c_prev_h = prev_h, c_prev_c = prev_c, c_next_h = next_h,
        c_next_c = next_c, c_Wx = Wx, c_Wh = Wh, c_b = b, c_activation = activation,
        c_input = input, c_forget = forget, c_output = output,
        c_block_input = block_input\<rparr>)
   }"


text \<open>
  \<open>lstm_step_backward\<close> begins with \<open>dnext_c += ...\<close>, an in-place update of the array
  the caller passed. \<open>dnext_c_update\<close> is the value that statement leaves in the array,
  \<open>lstm_step_backward_rest\<close> is the body after it, and \<open>lstm_step_backward\<close> returns,
  before the six results of the source, the updated \<open>dnext_c\<close>.
\<close>

definition dnext_c_update :: "mat \<Rightarrow> mat \<Rightarrow> cache \<Rightarrow> mat option" where
  "dnext_c_update dnext_h dnext_c cache = do {
     t \<leftarrow> mul_m dnext_h (c_output cache);
     u \<leftarrow> mul_m t (map_mat (\<lambda>v. 1 - v) (map_mat (\<lambda>v. v ^ 2) (map_mat tanh (c_next_c cache))));
     iadd dnext_c u
   }"

definition lstm_step_backward_rest ::
  "mat \<Rightarrow> mat \<Rightarrow> cache \<Rightarrow> (mat \<times> mat \<times> mat \<times> mat \<times> mat \<times> mat \<times> vec) option" where
  "lstm_step_backward_rest dnext_h dnext_c cache = do {
     let N = nrows dnext_h;
     let H = ncols dnext_h;
     let x = c_x cache;
     let prev_h = c_prev_h cache;
     let prev_c = c_prev_c cache;
     let next_c = c_next_c cache;
     let Wx = c_Wx cache;
     let Wh = c_Wh cache;
     let input = c_input cache;
     let forget = c_forget cache;
     let output = c_output cache;
     let block_input = c_block_input cache;
     dprev_c \<leftarrow> mul_m dnext_c forget;
     dinput_gate \<leftarrow> mul_m dnext_c block_input;
     dblock_input \<leftarrow> mul_m dnext_c input;
     dforget_gate \<leftarrow> mul_m dnext_c prev_c;
     doutput_gate \<leftarrow> mul_m dnext_h (map_mat tanh next_c);
     let dactivation = zeros N (4 * H);
     t \<leftarrow> mul_m dinput_gate input;
     v \<leftarrow> mul_m t (map_mat (\<lambda>v. 1 - v) input);
     dactivation \<leftarrow> set_cols 0 H dactivation v;
     t \<leftarrow> mul_m dforget_gate forget;
     v \<leftarrow> mul_m t (map_mat (\<lambda>v. 1 - v) forget);
     dactivation \<leftarrow> set_cols H (2 * H) dactivation v;
     t \<leftarrow> mul_m doutput_gate output;
     v \<leftarrow> mul_m t (map_mat (\<lambda>v. 1 - v) output);
     dactivation \<leftarrow> set_cols (2 * H) (3 * H) dactivation v;
     v \<leftarrow> mul_m dblock_input (map_mat (\<lambda>v. 1 - v) (map_mat (\<lambda>v. v ^ 2) block_input));
     dactivation \<leftarrow> set_cols (3 * H) (ncols dactivation) dactivation v;
     dx \<leftarrow> dot dactivation (transpose_m Wx);
     dWx \<leftarrow> dot (transpose_m x) dactivation;
     dWh \<leftarrow> dot (transpose_m prev_h) dactivation;
     dprev_h \<leftarrow> dot dactivation (transpose_m Wh);
     let db = sum_axis0 dactivation;
     Some (dactivation, dx, dprev_h, dprev_c, dWx, dWh, db)
   }"

definition lstm_step_backward ::
  "mat \<Rightarrow> mat \<Rightarrow> cache \<Rightarrow> (mat \<times> mat \<times> mat \<times> mat \<times> mat \<times> mat \<times> vec) option" where
  "lstm_step_backward dnext_h dnext_c cache = do {
     dnext_c \<leftarrow> dnext_c_update dnext_h dnext_c cache;
     (dactivation, dx, dprev_h, dprev_c, dWx, dWh, db) \<leftarrow>
       lstm_step_backward_rest dnext_h dnext_c cache;
     Some (dnext_c, dx, dprev_h, dprev_c, dWx, dWh, db)
   }"

text \<open>The array \<open>dactivation\<close> of a call, for statements about its layout.\<close>

definition lstm_step_dactivation :: "mat \<Rightarrow> mat \<Rightarrow> cache \<Rightarrow> mat option" where
  "lstm_step_dactivation dnext_h dnext_c cache = do {
     dnext_c \<leftarrow> dnext_c_update dnext_h dnext_c cache;
     r \<leftarrow> lstm_step_backward_rest dnext_h dnext_c cache;
     Some (fst r)
   }"

section \<open>A whole sequence\<close>

text \<open>A \<open>for\<close> loop over a list of indices whose body may raise.\<close>

fun foldM :: "('a \<Rightarrow> 's \<Rightarrow> 's option) \<Rightarrow> 'a list \<Rightarrow> 's \<Rightarrow> 's option" where
  "foldM f [] s = Some s"
| "foldM f (i # is) s = do { s' \<leftarrow> f i s; foldM f is s' }"

text \<open>
  \<open>seq_cache\<close> is a dict from the timestep to the step's cache. The loop state of
  \<open>lstm_forward\<close> is the buffer \<open>h\<close> of \<open>T + 1\<close> slots, \<open>prev_c\<close> and \<open>seq_cache\<close>.
\<close>

type_synonym seq_cache = "nat \<rightharpoonup> cache"

definition lstm_forward_init :: "ten3 \<Rightarrow> mat \<Rightarrow> mat \<Rightarrow> (ten3 \<times> mat \<times> seq_cache) option" where
  "lstm_forward_init x h0 Wh = do {
     let N = dim0 x;
     let T = dim1 x;
     let H = nrows Wh;
     let h = zeros3 N (T + 1) H;
     h \<leftarrow> set_t h 0 h0;
     let prev_c = zeros_like h0;
     Some (h, prev_c, Map.empty)
   }"

definition lstm_forward_body ::
  "ten3 \<Rightarrow> mat \<Rightarrow> mat \<Rightarrow> vec \<Rightarrow> nat \<Rightarrow> ten3 \<times> mat \<times> seq_cache \<Rightarrow>
   (ten3 \<times> mat \<times> seq_cache) option" where
  "lstm_forward_body x Wx Wh b i st = (case st of (h, prev_c, seq_cache) \<Rightarrow> do {
     xi \<leftarrow> slice_t x i;
     hi \<leftarrow> slice_t h i;
     (next_h, next_c, cache) \<leftarrow> lstm_step_forward xi hi prev_c Wx Wh b;
     h \<leftarrow> set_t h (i + 1) next_h;
     Some (h, next_c, seq_cache(i \<mapsto> cache))
   })"

definition lstm_forward ::
  "ten3 \<Rightarrow> mat \<Rightarrow> mat \<Rightarrow> mat \<Rightarrow> vec \<Rightarrow> (ten3 \<times> seq_cache) option" where
  "lstm_forward x h0 Wx Wh b = do {
     st \<leftarrow> lstm_forward_init x h0 Wh;
     (h, prev_c, seq_cache) \<leftarrow> foldM (lstm_forward_body x Wx Wh b) [0..<dim1 x] st;
     let h = drop_first_t h;
     Some (h, seq_cache)
   }"

text \<open>
  The loop state of \<open>lstm_backward\<close> is \<open>dx\<close>, \<open>dprev\<close>, \<open>dprev_c\<close>, \<open>dWx\<close>, \<open>dWh\<close> and
  \<open>db\<close>. \<open>cache[0]\<close> and \<open>cache[i]\<close> are dict lookups: a missing key raises.
\<close>

type_synonym bwd_state = "ten3 \<times> mat \<times> mat \<times> mat \<times> mat \<times> vec"

definition lstm_backward_body ::
  "ten3 \<Rightarrow> seq_cache \<Rightarrow> nat \<Rightarrow> bwd_state \<Rightarrow> bwd_state option" where
  "lstm_backward_body dh cache i st = (case st of (dx, dprev, dprev_c, dWx, dWh, db) \<Rightarrow> do {
     dhi \<leftarrow> slice_t dh i;
     dh_current \<leftarrow> add_m dhi dprev;
     ci \<leftarrow> cache i;
     (dnext_c, dx_t, dprev, dprev_c, dWx_t, dWh_t, db_t) \<leftarrow>
       lstm_step_backward dh_current dprev_c ci;
     dx \<leftarrow> iadd_t dx i dx_t;
     db \<leftarrow> iadd_v db db_t;
     dWx \<leftarrow> iadd dWx dWx_t;
     dWh \<leftarrow> iadd dWh dWh_t;
     Some (dx, dprev, dprev_c, dWx, dWh, db)
   })"

definition lstm_backward_init :: "ten3 \<Rightarrow> seq_cache \<Rightarrow> (mat \<times> bwd_state) option" where
  "lstm_backward_init dh cache = do {
     let N = dim0 dh;
     let T = dim1 dh;
     let H = dim2 dh;
     c0 \<leftarrow> cache 0;
     let D = ncols (c_x c0);
     let dx = zeros3 N T D;
     let dh0 = zeros N H;
     let dWx = zeros D (4 * H);
     let dWh = zeros H (4 * H);
     let db = zeros1 (4 * H);
     let dprev = zeros N H;
     let dprev_c = zeros N H;
     Some (dh0, (dx, dprev, dprev_c, dWx, dWh, db))
   }"

definition lstm_backward ::
  "ten3 \<Rightarrow> seq_cache \<Rightarrow> (ten3 \<times> mat \<times> mat \<times> mat \<times> vec) option" where
  "lstm_backward dh cache = do {
     (dh0, st) \<leftarrow> lstm_backward_init dh cache;
     (dx, dprev, dprev_c, dWx, dWh, db) \<leftarrow>
       foldM (lstm_backward_body dh cache) (rev [0..<dim1 dh]) st;
     dh0 \<leftarrow> iadd dh0 dprev;
     Some (dx, dh0, dWx, dWh, db)
   }"

section \<open>The step as the specification words it\<close>

text \<open>
  These definitions follow the specification, not the code: the logistic function, the
  activation \<open>a = x\<cdot>Wx + h_prev\<cdot>Wh + b\<close> with the bias added to every row, its \<open>k\<close>-th
  block of width \<open>H\<close>, and the next cell and hidden states.
\<close>

definition logistic :: "real \<Rightarrow> real" where
  "logistic x = 1 / (1 + exp (- x))"

definition spec_activation :: "mat \<Rightarrow> mat \<Rightarrow> mat \<Rightarrow> mat \<Rightarrow> vec \<Rightarrow> mat" where
  "spec_activation x h_prev Wx Wh b =
     mk_mat (nrows x) (length b)
       (\<lambda>n m. (\<Sum>k<ncols x. el x n k * el Wx k m)
             + (\<Sum>k<ncols h_prev. el h_prev n k * el Wh k m) + b ! m)"

definition spec_block :: "nat \<Rightarrow> nat \<Rightarrow> mat \<Rightarrow> mat" where
  "spec_block k H a = mk_mat (nrows a) H (\<lambda>n j. el a n (k * H + j))"

definition spec_c_next :: "mat \<Rightarrow> mat \<Rightarrow> mat \<Rightarrow> mat \<Rightarrow> mat \<Rightarrow> vec \<Rightarrow> mat" where
  "spec_c_next x h_prev c_prev Wx Wh b =
     (let H = ncols h_prev;
          a = spec_activation x h_prev Wx Wh b;
          ig = map_mat logistic (spec_block 0 H a);
          fg = map_mat logistic (spec_block 1 H a);
          gg = map_mat tanh (spec_block 3 H a)
      in mk_mat (nrows x) H (\<lambda>n j. el fg n j * el c_prev n j + el ig n j * el gg n j))"

definition spec_h_next :: "mat \<Rightarrow> mat \<Rightarrow> mat \<Rightarrow> mat \<Rightarrow> mat \<Rightarrow> vec \<Rightarrow> mat" where
  "spec_h_next x h_prev c_prev Wx Wh b =
     (let H = ncols h_prev;
          a = spec_activation x h_prev Wx Wh b;
          og = map_mat logistic (spec_block 2 H a);
          c_next = spec_c_next x h_prev c_prev Wx Wh b
      in mk_mat (nrows x) H (\<lambda>n j. el og n j * tanh (el c_next n j)))"

section \<open>Closed forms of the backward step\<close>

text \<open>
  A cache whose thirteen arrays have the shapes of a step on a batch of \<open>N\<close>, an input
  width \<open>D\<close> and a hidden width \<open>H\<close>.
\<close>

definition wf_cache :: "nat \<Rightarrow> nat \<Rightarrow> nat \<Rightarrow> cache \<Rightarrow> bool" where
  "wf_cache N D H c \<longleftrightarrow>
     has_shape (c_x c) N D \<and> has_shape (c_prev_h c) N H \<and> has_shape (c_prev_c c) N H \<and>
     has_shape (c_next_h c) N H \<and> has_shape (c_next_c c) N H \<and>
     has_shape (c_Wx c) D (4 * H) \<and> has_shape (c_Wh c) H (4 * H) \<and> length (c_b c) = 4 * H \<and>
     has_shape (c_activation c) N (4 * H) \<and> has_shape (c_input c) N H \<and>
     has_shape (c_forget c) N H \<and> has_shape (c_output c) N H \<and>
     has_shape (c_block_input c) N H"

text \<open>
  The cell gradient after \<open>dnext_c += dnext_h * output * (1 - tanh(next_c)**2)\<close>, and the
  element of \<open>dactivation\<close> in row \<open>n\<close> and column \<open>m\<close> once its four blocks are written.
\<close>

definition dc_total :: "mat \<Rightarrow> mat \<Rightarrow> cache \<Rightarrow> mat" where
  "dc_total dnext_h dnext_c cache =
     mk_mat (nrows dnext_c) (ncols dnext_c)
       (\<lambda>n j. el dnext_c n j
             + el dnext_h n j * el (c_output cache) n j
               * (1 - (tanh (el (c_next_c cache) n j))\<^sup>2))"

definition dact_el :: "nat \<Rightarrow> mat \<Rightarrow> mat \<Rightarrow> cache \<Rightarrow> nat \<Rightarrow> nat \<Rightarrow> real" where
  "dact_el H dnext_h dc cache n m =
     (if m < H then
        el dc n m * el (c_block_input cache) n m * el (c_input cache) n m
          * (1 - el (c_input cache) n m)
      else if m < 2 * H then
        el dc n (m - H) * el (c_prev_c cache) n (m - H) * el (c_forget cache) n (m - H)
          * (1 - el (c_forget cache) n (m - H))
      else if m < 3 * H then
        el dnext_h n (m - 2 * H) * tanh (el (c_next_c cache) n (m - 2 * H))
          * el (c_output cache) n (m - 2 * H) * (1 - el (c_output cache) n (m - 2 * H))
      else
        el dc n (m - 3 * H) * el (c_input cache) n (m - 3 * H)
          * (1 - (el (c_block_input cache) n (m - 3 * H))\<^sup>2))"

section \<open>The reverse-mode gradient of a step\<close>

text \<open>
  Upstream gradients \<open>dh\<close> and \<open>dc\<close> weigh the two outputs of a step: \<open>vjp_loss\<close> is
  \<open>\<Sum> dh \<odot> h_next + \<Sum> dc \<odot> c_next\<close>, the scalar whose partial derivatives are the
  reverse-mode gradients (the notebook's numerical check perturbs one entry of one input
  at a time and weighs the change of the outputs in this way). \<open>set_el A i j t\<close> is
  \<open>A\<close> with the entry at \<open>(i, j)\<close> replaced by \<open>t\<close>. \<open>cell_loss\<close> is the contribution
  of one hidden unit of one sequence, as a function of its four activations and its
  previous cell state.
\<close>

definition set_el :: "mat \<Rightarrow> nat \<Rightarrow> nat \<Rightarrow> real \<Rightarrow> mat" where
  "set_el A i j t =
     mk_mat (nrows A) (ncols A) (\<lambda>i' j'. if i' = i \<and> j' = j then t else el A i' j')"

definition vjp_loss :: "mat \<Rightarrow> mat \<Rightarrow> (mat \<times> mat \<times> cache) option \<Rightarrow> real" where
  "vjp_loss dh dc r =
     (case r of
        None \<Rightarrow> 0
      | Some (h_next, c_next, _) \<Rightarrow>
          (\<Sum>n<nrows h_next. \<Sum>j<ncols h_next.
             el dh n j * el h_next n j + el dc n j * el c_next n j))"

definition cell_loss :: "real \<Rightarrow> real \<Rightarrow> real \<Rightarrow> real \<Rightarrow> real \<Rightarrow> real \<Rightarrow> real \<Rightarrow> real" where
  "cell_loss dh dc ai af ao ag c =
     dh * (logistic ao * tanh (logistic af * c + logistic ai * tanh ag))
     + dc * (logistic af * c + logistic ai * tanh ag)"

section \<open>The sequence as the specification words it\<close>

text \<open>
  The chain of steps the specification describes, with the initial cell state given
  explicitly: \<open>lstm_chain x h0 c0 Wx Wh b t\<close> is the state \<open>(h, c)\<close> after \<open>t\<close> timesteps,
  each one \<open>lstm_step_forward\<close> on \<open>x[:, t, :]\<close> and the state before it.
\<close>

fun lstm_chain ::
  "ten3 \<Rightarrow> mat \<Rightarrow> mat \<Rightarrow> mat \<Rightarrow> mat \<Rightarrow> vec \<Rightarrow> nat \<Rightarrow> (mat \<times> mat) option" where
  "lstm_chain x h0 c0 Wx Wh b 0 = Some (h0, c0)"
| "lstm_chain x h0 c0 Wx Wh b (Suc t) = do {
     (h, c) \<leftarrow> lstm_chain x h0 c0 Wx Wh b t;
     (next_h, next_c, cache) \<leftarrow> lstm_step_forward (view_t x t) h c Wx Wh b;
     Some (next_h, next_c)
   }"

text \<open>The cache of the step that the chain takes at timestep \<open>t\<close>.\<close>

definition lstm_chain_cache ::
  "ten3 \<Rightarrow> mat \<Rightarrow> mat \<Rightarrow> mat \<Rightarrow> mat \<Rightarrow> vec \<Rightarrow> nat \<Rightarrow> cache option" where
  "lstm_chain_cache x h0 c0 Wx Wh b t = do {
     (h, c) \<leftarrow> lstm_chain x h0 c0 Wx Wh b t;
     (next_h, next_c, cache) \<leftarrow> lstm_step_forward (view_t x t) h c Wx Wh b;
     Some cache
   }"

text \<open>
  Closed forms for the proofs: the cache a step on well-shaped inputs builds, and the
  state of the chain written with the specification's \<open>h_next\<close> and \<open>c_next\<close>.
\<close>

definition spec_cache :: "mat \<Rightarrow> mat \<Rightarrow> mat \<Rightarrow> mat \<Rightarrow> mat \<Rightarrow> vec \<Rightarrow> cache" where
  "spec_cache x h_prev c_prev Wx Wh b =
     \<lparr>c_x = x, c_prev_h = h_prev, c_prev_c = c_prev,
      c_next_h = spec_h_next x h_prev c_prev Wx Wh b,
      c_next_c = spec_c_next x h_prev c_prev Wx Wh b, c_Wx = Wx, c_Wh = Wh, c_b = b,
      c_activation = spec_activation x h_prev Wx Wh b,
      c_input = map_mat logistic (spec_block 0 (ncols h_prev) (spec_activation x h_prev Wx Wh b)),
      c_forget = map_mat logistic (spec_block 1 (ncols h_prev) (spec_activation x h_prev Wx Wh b)),
      c_output = map_mat logistic (spec_block 2 (ncols h_prev) (spec_activation x h_prev Wx Wh b)),
      c_block_input = map_mat tanh (spec_block 3 (ncols h_prev) (spec_activation x h_prev Wx Wh b))\<rparr>"

fun chain_st :: "ten3 \<Rightarrow> mat \<Rightarrow> mat \<Rightarrow> mat \<Rightarrow> mat \<Rightarrow> vec \<Rightarrow> nat \<Rightarrow> mat \<times> mat" where
  "chain_st x h0 c0 Wx Wh b 0 = (h0, c0)"
| "chain_st x h0 c0 Wx Wh b (Suc t) =
     (spec_h_next (view_t x t) (fst (chain_st x h0 c0 Wx Wh b t))
        (snd (chain_st x h0 c0 Wx Wh b t)) Wx Wh b,
      spec_c_next (view_t x t) (fst (chain_st x h0 c0 Wx Wh b t))
        (snd (chain_st x h0 c0 Wx Wh b t)) Wx Wh b)"

text \<open>
  The loop state of \<open>lstm_forward\<close> after \<open>k\<close> iterations, in closed form: the buffer holds
  \<open>h0\<close> and the first \<open>k\<close> hidden states, \<open>prev_c\<close> is the chain's cell state and the dict
  holds the caches of the timesteps below \<open>k\<close>.
\<close>

definition fwd_state ::
  "ten3 \<Rightarrow> mat \<Rightarrow> mat \<Rightarrow> mat \<Rightarrow> vec \<Rightarrow> nat \<Rightarrow> ten3 \<times> mat \<times> seq_cache" where
  "fwd_state x h0 Wx Wh b k =
     (mk_ten (dim0 x) (dim1 x + 1) (nrows Wh)
        (\<lambda>n j d. if j \<le> k then el (fst (chain_st x h0 (zeros_like h0) Wx Wh b j)) n d else 0),
      snd (chain_st x h0 (zeros_like h0) Wx Wh b k),
      (\<lambda>t. if t < k
            then Some (spec_cache (view_t x t) (fst (chain_st x h0 (zeros_like h0) Wx Wh b t))
                        (snd (chain_st x h0 (zeros_like h0) Wx Wh b t)) Wx Wh b)
            else None))"

text \<open>The \<open>next_c\<close> that the cache of timestep \<open>t\<close> in a result of \<open>lstm_forward\<close> holds.\<close>

definition returned_next_c :: "(ten3 \<times> seq_cache) option \<Rightarrow> nat \<Rightarrow> mat option" where
  "returned_next_c r t =
     (case r of None \<Rightarrow> None | Some (h, caches) \<Rightarrow> map_option c_next_c (caches t))"

section \<open>Backpropagation through time as the specification words it\<close>

text \<open>
  The components of what \<open>lstm_step_backward\<close> returns, after the updated \<open>dnext_c\<close>.
\<close>

type_synonym step_result = "mat \<times> mat \<times> mat \<times> mat \<times> mat \<times> mat \<times> vec"

definition g_dx :: "step_result \<Rightarrow> mat" where
  "g_dx r = fst (snd r)"

definition g_dprev_h :: "step_result \<Rightarrow> mat" where
  "g_dprev_h r = fst (snd (snd r))"

definition g_dprev_c :: "step_result \<Rightarrow> mat" where
  "g_dprev_c r = fst (snd (snd (snd r)))"

definition g_dWx :: "step_result \<Rightarrow> mat" where
  "g_dWx r = fst (snd (snd (snd (snd r))))"

definition g_dWh :: "step_result \<Rightarrow> mat" where
  "g_dWh r = fst (snd (snd (snd (snd (snd r)))))"

definition g_db :: "step_result \<Rightarrow> vec" where
  "g_db r = snd (snd (snd (snd (snd (snd r)))))"

text \<open>
  The step at timestep \<open>t\<close> on given carries: \<open>dh_total = dh[t] + dh_carry\<close>, then the cell
  step backward on \<open>(dh_total, dc_carry, cache[t])\<close>. \<open>bptt dh caches j\<close> is the pair of
  carries after the \<open>j\<close> timesteps \<open>T - 1, \<dots>, T - j\<close>, zero before any of them, and
  \<open>bptt_grads dh caches t\<close> is what the step at timestep \<open>t\<close> returns on the carries left by
  the timesteps after it.
\<close>

definition bptt_step_at ::
  "ten3 \<Rightarrow> seq_cache \<Rightarrow> nat \<Rightarrow> mat \<Rightarrow> mat \<Rightarrow> step_result option" where
  "bptt_step_at dh caches t dh_carry dc_carry = do {
     dh_t \<leftarrow> slice_t dh t;
     dh_total \<leftarrow> add_m dh_t dh_carry;
     c \<leftarrow> caches t;
     lstm_step_backward dh_total dc_carry c
   }"

fun bptt :: "ten3 \<Rightarrow> seq_cache \<Rightarrow> nat \<Rightarrow> (mat \<times> mat) option" where
  "bptt dh caches 0 = Some (zeros (dim0 dh) (dim2 dh), zeros (dim0 dh) (dim2 dh))"
| "bptt dh caches (Suc j) = do {
     (dh_carry, dc_carry) \<leftarrow> bptt dh caches j;
     r \<leftarrow> bptt_step_at dh caches (dim1 dh - Suc j) dh_carry dc_carry;
     Some (g_dprev_h r, g_dprev_c r)
   }"

definition bptt_grads :: "ten3 \<Rightarrow> seq_cache \<Rightarrow> nat \<Rightarrow> step_result option" where
  "bptt_grads dh caches t = do {
     (dh_carry, dc_carry) \<leftarrow> bptt dh caches (dim1 dh - Suc t);
     bptt_step_at dh caches t dh_carry dc_carry
   }"

text \<open>
  The loop state of \<open>lstm_backward\<close> after the \<open>j\<close> timesteps \<open>T - 1, \<dots>, T - j\<close>, in closed
  form, given the carries \<open>C\<close> and the step results \<open>G\<close> of every timestep.
\<close>

definition bwd_state ::
  "nat \<Rightarrow> nat \<Rightarrow> nat \<Rightarrow> nat \<Rightarrow> (nat \<Rightarrow> mat \<times> mat) \<Rightarrow> (nat \<Rightarrow> step_result) \<Rightarrow> nat \<Rightarrow> bwd_state"
  where
  "bwd_state N T D H C G j =
     (mk_ten N T D (\<lambda>n t d. if T - j \<le> t then el (g_dx (G t)) n d else 0),
      fst (C j), snd (C j),
      mk_mat D (4 * H) (\<lambda>d m. \<Sum>i<j. el (g_dWx (G (T - Suc i))) d m),
      mk_mat H (4 * H) (\<lambda>k m. \<Sum>i<j. el (g_dWh (G (T - Suc i))) k m),
      mk_vec (4 * H) (\<lambda>m. \<Sum>i<j. g_db (G (T - Suc i)) ! m))"

section \<open>Arrays as objects: the store\<close>

text \<open>
  numpy arrays are mutable objects passed by reference, and \<open>lstm_step_backward\<close> updates
  one of its arguments in place. Where a property depends on which array is written, an
  array is an address into a store, \<open>np.zeros\<close> and every operator that builds a new array
  allocate a fresh address, and an in-place operator overwrites the cell of its target.
  A cache is the tuple of the addresses of its thirteen arrays. Views that share the
  memory of another array are not modelled: an address stands for a whole array.
\<close>

datatype arr = Arr1 vec | Arr2 mat | Arr3 ten3

type_synonym store = "arr list"

definition rd1 :: "store \<Rightarrow> nat \<Rightarrow> vec option" where
  "rd1 \<sigma> a = (if a < length \<sigma> then (case \<sigma> ! a of Arr1 v \<Rightarrow> Some v | _ \<Rightarrow> None) else None)"

definition rd2 :: "store \<Rightarrow> nat \<Rightarrow> mat option" where
  "rd2 \<sigma> a = (if a < length \<sigma> then (case \<sigma> ! a of Arr2 m \<Rightarrow> Some m | _ \<Rightarrow> None) else None)"

definition rd3 :: "store \<Rightarrow> nat \<Rightarrow> ten3 option" where
  "rd3 \<sigma> a = (if a < length \<sigma> then (case \<sigma> ! a of Arr3 x \<Rightarrow> Some x | _ \<Rightarrow> None) else None)"

definition alloc :: "store \<Rightarrow> arr \<Rightarrow> store \<times> nat" where
  "alloc \<sigma> v = (\<sigma> @ [v], length \<sigma>)"

record cache_ref =
  r_x :: nat
  r_prev_h :: nat
  r_prev_c :: nat
  r_next_h :: nat
  r_next_c :: nat
  r_Wx :: nat
  r_Wh :: nat
  r_b :: nat
  r_activation :: nat
  r_input :: nat
  r_forget :: nat
  r_output :: nat
  r_block_input :: nat

definition cache_addrs :: "cache_ref \<Rightarrow> nat list" where
  "cache_addrs cr = [r_x cr, r_prev_h cr, r_prev_c cr, r_next_h cr, r_next_c cr, r_Wx cr,
     r_Wh cr, r_b cr, r_activation cr, r_input cr, r_forget cr, r_output cr,
     r_block_input cr]"

text \<open>The contents, at this moment, of the arrays a cache refers to.\<close>

definition rd_cache :: "store \<Rightarrow> cache_ref \<Rightarrow> cache option" where
  "rd_cache \<sigma> cr = do {
     x \<leftarrow> rd2 \<sigma> (r_x cr);
     prev_h \<leftarrow> rd2 \<sigma> (r_prev_h cr);
     prev_c \<leftarrow> rd2 \<sigma> (r_prev_c cr);
     next_h \<leftarrow> rd2 \<sigma> (r_next_h cr);
     next_c \<leftarrow> rd2 \<sigma> (r_next_c cr);
     Wx \<leftarrow> rd2 \<sigma> (r_Wx cr);
     Wh \<leftarrow> rd2 \<sigma> (r_Wh cr);
     b \<leftarrow> rd1 \<sigma> (r_b cr);
     activation \<leftarrow> rd2 \<sigma> (r_activation cr);
     input \<leftarrow> rd2 \<sigma> (r_input cr);
     forget \<leftarrow> rd2 \<sigma> (r_forget cr);
     output \<leftarrow> rd2 \<sigma> (r_output cr);
     block_input \<leftarrow> rd2 \<sigma> (r_block_input cr);
     Some \<lparr>c_x = x, c_prev_h = prev_h, c_prev_c = prev_c, c_next_h = next_h,
        c_next_c = next_c, c_Wx = Wx, c_Wh = Wh, c_b = b, c_activation = activation,
        c_input = input, c_forget = forget, c_output = output,
        c_block_input = block_input\<rparr>
   }"

text \<open>
  A call ends by returning or by raising, and the arrays it wrote before raising stay
  written. So a call on the store gives the store as it is when the call ends, and what
  the call returned if it returned. \<open>on_value r \<sigma> k\<close> goes on with \<open>k\<close> when the
  computation \<open>r\<close>, which writes nothing, has a value, and ends the call in the store \<open>\<sigma>\<close>
  when \<open>r\<close> raised.
\<close>

definition on_value :: "'a option \<Rightarrow> store \<Rightarrow> ('a \<Rightarrow> store \<times> 'b option) \<Rightarrow> store \<times> 'b option" where
  "on_value r \<sigma> k = (case r of None \<Rightarrow> (\<sigma>, None) | Some a \<Rightarrow> k a)"

text \<open>
  \<open>lstm_step_backward\<close> on the store. The right-hand side of \<open>dnext_c += ...\<close> is computed
  from the arrays as they are on entry and written into the cell of \<open>dnext_c\<close>; every
  later statement reads the arrays as they are after that write, also when \<open>dnext_c\<close>
  shares its address with \<open>dnext_h\<close> or with an array of the cache. The six results are
  new arrays; the arrays the body builds on the way to them are not given addresses.
\<close>

type_synonym step_refs = "nat \<times> nat \<times> nat \<times> nat \<times> nat \<times> nat"

definition lstm_step_backward_st ::
  "store \<Rightarrow> nat \<Rightarrow> nat \<Rightarrow> cache_ref \<Rightarrow> store \<times> step_refs option" where
  "lstm_step_backward_st \<sigma> a_dnext_h a_dnext_c cr =
     on_value (do {
       dnext_h \<leftarrow> rd2 \<sigma> a_dnext_h;
       dnext_c \<leftarrow> rd2 \<sigma> a_dnext_c;
       cache \<leftarrow> rd_cache \<sigma> cr;
       dnext_c_update dnext_h dnext_c cache
     }) \<sigma> (\<lambda>v.
     let \<sigma> = \<sigma>[a_dnext_c := Arr2 v] in
     on_value (do {
       dnext_h \<leftarrow> rd2 \<sigma> a_dnext_h;
       dnext_c \<leftarrow> rd2 \<sigma> a_dnext_c;
       cache \<leftarrow> rd_cache \<sigma> cr;
       lstm_step_backward_rest dnext_h dnext_c cache
     }) \<sigma> (\<lambda>(dactivation, dx, dprev_h, dprev_c, dWx, dWh, db).
     let (\<sigma>, a_dx) = alloc \<sigma> (Arr2 dx);
         (\<sigma>, a_dprev_h) = alloc \<sigma> (Arr2 dprev_h);
         (\<sigma>, a_dprev_c) = alloc \<sigma> (Arr2 dprev_c);
         (\<sigma>, a_dWx) = alloc \<sigma> (Arr2 dWx);
         (\<sigma>, a_dWh) = alloc \<sigma> (Arr2 dWh);
         (\<sigma>, a_db) = alloc \<sigma> (Arr1 db)
     in (\<sigma>, Some (a_dx, a_dprev_h, a_dprev_c, a_dWx, a_dWh, a_db))))"

text \<open>A loop on the store: it ends where its body first raises.\<close>

fun foldM_st ::
  "('a \<Rightarrow> store \<times> 's \<Rightarrow> store \<times> 's option) \<Rightarrow> 'a list \<Rightarrow> store \<times> 's \<Rightarrow> store \<times> 's option" where
  "foldM_st f [] (\<sigma>, s) = (\<sigma>, Some s)"
| "foldM_st f (i # is) (\<sigma>, s) =
     (case f i (\<sigma>, s) of (\<sigma>, None) \<Rightarrow> (\<sigma>, None) | (\<sigma>, Some s) \<Rightarrow> foldM_st f is (\<sigma>, s))"

text \<open>
  \<open>lstm_backward\<close> on the store. \<open>dh\<close> and the caches are the caller's; the accumulators
  \<open>dx\<close>, \<open>dh0\<close>, \<open>dWx\<close>, \<open>dWh\<close>, \<open>db\<close> and the carries \<open>dprev\<close>, \<open>dprev_h\<close>, \<open>dprev_c\<close> come
  from \<open>np.zeros\<close>; \<open>dh[:,i,:] + dprev\<close> builds a new array. The loop state is the store
  and the addresses the names \<open>dprev\<close> and \<open>dprev_c\<close> are bound to.
\<close>

type_synonym seq_cache_ref = "nat \<rightharpoonup> cache_ref"

definition lstm_backward_body_st ::
  "nat \<Rightarrow> seq_cache_ref \<Rightarrow> nat \<Rightarrow> nat \<Rightarrow> nat \<Rightarrow> nat \<Rightarrow> nat \<Rightarrow> store \<times> nat \<times> nat \<Rightarrow>
   store \<times> (nat \<times> nat) option" where
  "lstm_backward_body_st a_dh cache a_dx a_dWx a_dWh a_db i st =
    (case st of (\<sigma>, a_dprev, a_dprev_c) \<Rightarrow>
     on_value (do {
       dh \<leftarrow> rd3 \<sigma> a_dh;
       dhi \<leftarrow> slice_t dh i;
       dprev \<leftarrow> rd2 \<sigma> a_dprev;
       add_m dhi dprev
     }) \<sigma> (\<lambda>dh_current.
     let (\<sigma>, a_dh_current) = alloc \<sigma> (Arr2 dh_current) in
     on_value (cache i) \<sigma> (\<lambda>ci.
     case lstm_step_backward_st \<sigma> a_dh_current a_dprev_c ci of
       (\<sigma>, None) \<Rightarrow> (\<sigma>, None)
     | (\<sigma>, Some (a_dx_t, a_dprev, a_dprev_c, a_dWx_t, a_dWh_t, a_db_t)) \<Rightarrow>
     on_value (do {
       dx \<leftarrow> rd3 \<sigma> a_dx;
       dx_t \<leftarrow> rd2 \<sigma> a_dx_t;
       iadd_t dx i dx_t
     }) \<sigma> (\<lambda>v.
     let \<sigma> = \<sigma>[a_dx := Arr3 v] in
     on_value (do {
       db \<leftarrow> rd1 \<sigma> a_db;
       db_t \<leftarrow> rd1 \<sigma> a_db_t;
       iadd_v db db_t
     }) \<sigma> (\<lambda>v.
     let \<sigma> = \<sigma>[a_db := Arr1 v] in
     on_value (do {
       dWx \<leftarrow> rd2 \<sigma> a_dWx;
       dWx_t \<leftarrow> rd2 \<sigma> a_dWx_t;
       iadd dWx dWx_t
     }) \<sigma> (\<lambda>v.
     let \<sigma> = \<sigma>[a_dWx := Arr2 v] in
     on_value (do {
       dWh \<leftarrow> rd2 \<sigma> a_dWh;
       dWh_t \<leftarrow> rd2 \<sigma> a_dWh_t;
       iadd dWh dWh_t
     }) \<sigma> (\<lambda>v.
     let \<sigma> = \<sigma>[a_dWh := Arr2 v] in
     (\<sigma>, Some (a_dprev, a_dprev_c)))))))))"

type_synonym seq_refs = "nat \<times> nat \<times> nat \<times> nat \<times> nat"

definition lstm_backward_st ::
  "store \<Rightarrow> nat \<Rightarrow> seq_cache_ref \<Rightarrow> store \<times> seq_refs option" where
  "lstm_backward_st \<sigma> a_dh cache =
     on_value (do {
       dh \<leftarrow> rd3 \<sigma> a_dh;
       c0 \<leftarrow> cache 0;
       x0 \<leftarrow> rd2 \<sigma> (r_x c0);
       Some (dim0 dh, dim1 dh, dim2 dh, ncols x0)
     }) \<sigma> (\<lambda>(N, T, H, D).
     let (\<sigma>, a_dx) = alloc \<sigma> (Arr3 (zeros3 N T D));
         (\<sigma>, a_dh0) = alloc \<sigma> (Arr2 (zeros N H));
         (\<sigma>, a_dWx) = alloc \<sigma> (Arr2 (zeros D (4 * H)));
         (\<sigma>, a_dWh) = alloc \<sigma> (Arr2 (zeros H (4 * H)));
         (\<sigma>, a_db) = alloc \<sigma> (Arr1 (zeros1 (4 * H)));
         (\<sigma>, a_dprev) = alloc \<sigma> (Arr2 (zeros N H));
         (\<sigma>, a_dprev_h) = alloc \<sigma> (Arr2 (zeros N H));
         (\<sigma>, a_dprev_c) = alloc \<sigma> (Arr2 (zeros N H))
     in
     case foldM_st (lstm_backward_body_st a_dh cache a_dx a_dWx a_dWh a_db) (rev [0..<T])
            (\<sigma>, a_dprev, a_dprev_c) of
       (\<sigma>, None) \<Rightarrow> (\<sigma>, None)
     | (\<sigma>, Some (a_dprev, a_dprev_c)) \<Rightarrow>
     on_value (do {
       dh0 \<leftarrow> rd2 \<sigma> a_dh0;
       dprev \<leftarrow> rd2 \<sigma> a_dprev;
       iadd dh0 dprev
     }) \<sigma> (\<lambda>v.
     let \<sigma> = \<sigma>[a_dh0 := Arr2 v] in
     (\<sigma>, Some (a_dx, a_dh0, a_dWx, a_dWh, a_db))))"

section \<open>Example inputs\<close>

text \<open>One sequence, one feature, one hidden unit (\<open>N = D = H = 1\<close>).\<close>

definition ex_zero :: mat where
  "ex_zero = \<lparr>nrows = 1, ncols = 1, rows = [[0]]\<rparr>"

definition ex_one :: mat where
  "ex_one = \<lparr>nrows = 1, ncols = 1, rows = [[1]]\<rparr>"

definition ex_two :: mat where
  "ex_two = \<lparr>nrows = 1, ncols = 1, rows = [[2]]\<rparr>"

definition ex_W :: mat where
  "ex_W = \<lparr>nrows = 1, ncols = 4, rows = [[0, 0, 0, 0]]\<rparr>"

definition ex_b :: vec where
  "ex_b = [0, 0, 0, 0]"

definition ex_half :: mat where
  "ex_half = \<lparr>nrows = 1, ncols = 1, rows = [[1 / 2]]\<rparr>"

definition ex_h1 :: mat where
  "ex_h1 = \<lparr>nrows = 1, ncols = 1, rows = [[tanh 1 / 2]]\<rparr>"

text \<open>
  The cache of the step on \<open>x = 0\<close>, \<open>prev_h = 0\<close>, \<open>prev_c = 2\<close> with zero weights and
  bias: every gate is \<open>1/2\<close>, the block input is 0, \<open>next_c = 1\<close> and
  \<open>next_h = tanh(1) / 2\<close>.
\<close>

definition ex_b1 :: vec where
  "ex_b1 = [0, 0, 0, 1]"

definition ex_x3 :: ten3 where
  "ex_x3 = \<lparr>dim0 = 1, dim1 = 1, dim2 = 1, slabs = [[[0]]]\<rparr>"

definition ex_x0 :: ten3 where
  "ex_x0 = \<lparr>dim0 = 1, dim1 = 0, dim2 = 1, slabs = [[]]\<rparr>"

definition ex_dh3 :: ten3 where
  "ex_dh3 = \<lparr>dim0 = 1, dim1 = 1, dim2 = 1, slabs = [[[1]]]\<rparr>"

definition ex_c1 :: mat where
  "ex_c1 = \<lparr>nrows = 1, ncols = 1, rows = [[tanh 1 / 2]]\<rparr>"

definition ex_h2 :: mat where
  "ex_h2 = \<lparr>nrows = 1, ncols = 1, rows = [[tanh (tanh 1 / 2) / 2]]\<rparr>"

definition ex_dct :: mat where
  "ex_dct = \<lparr>nrows = 1, ncols = 1, rows = [[(1 - (tanh 1)\<^sup>2) / 2]]\<rparr>"

definition ex_dpc :: mat where
  "ex_dpc = \<lparr>nrows = 1, ncols = 1, rows = [[(1 - (tanh 1)\<^sup>2) / 4]]\<rparr>"

definition ex_db :: vec where
  "ex_db = [0, (1 - (tanh 1)\<^sup>2) / 4, tanh 1 / 4, (1 - (tanh 1)\<^sup>2) / 4]"

definition ex_dx3 :: ten3 where
  "ex_dx3 = \<lparr>dim0 = 1, dim1 = 1, dim2 = 1, slabs = [[[0]]]\<rparr>"

definition ex_cache :: cache where
  "ex_cache = \<lparr>c_x = ex_zero, c_prev_h = ex_zero, c_prev_c = ex_two, c_next_h = ex_h1,
     c_next_c = ex_one, c_Wx = ex_W, c_Wh = ex_W, c_b = ex_b, c_activation = ex_W,
     c_input = ex_half, c_forget = ex_half, c_output = ex_half, c_block_input = ex_zero\<rparr>"

text \<open>
  A step whose four gates differ: \<open>x = 1\<close>, \<open>prev_h = 0\<close>, \<open>prev_c = 2\<close>, zero weights and
  the bias \<open>(0, 1, -1, 2)\<close>. Then \<open>next_c\<close> is \<open>ex_q\<close>, the cell gradient after the
  in-place update for \<open>dnext_h = 1\<close>, \<open>dnext_c = 0\<close> is \<open>ex_k\<close>, and the one row of
  \<open>dactivation\<close> is \<open>ex_da\<close>.
\<close>

definition ex_b4 :: vec where
  "ex_b4 = [0, 1, - 1, 2]"

definition ex_q :: real where
  "ex_q = logistic 1 * 2 + logistic 0 * tanh 2"

definition ex_k :: real where
  "ex_k = logistic (- 1) * (1 - (tanh ex_q)\<^sup>2)"

definition ex_da :: vec where
  "ex_da = [ex_k * tanh 2 * logistic 0 * (1 - logistic 0),
            ex_k * 2 * logistic 1 * (1 - logistic 1),
            tanh ex_q * logistic (- 1) * (1 - logistic (- 1)),
            ex_k * logistic 0 * (1 - (tanh 2)\<^sup>2)]"

text \<open>
  A store for one backward step: \<open>dnext_h = 1\<close> at address 0, \<open>dnext_c = 0\<close> at address 1,
  and the thirteen arrays of \<open>ex_cache\<close> at the addresses 2 to 14.
\<close>

definition ex_store :: store where
  "ex_store = [Arr2 ex_one, Arr2 ex_zero,
     Arr2 ex_zero, Arr2 ex_zero, Arr2 ex_two, Arr2 ex_h1, Arr2 ex_one, Arr2 ex_W, Arr2 ex_W,
     Arr1 ex_b, Arr2 ex_W, Arr2 ex_half, Arr2 ex_half, Arr2 ex_half, Arr2 ex_zero]"

definition ex_cref :: cache_ref where
  "ex_cref = \<lparr>r_x = 2, r_prev_h = 3, r_prev_c = 4, r_next_h = 5, r_next_c = 6, r_Wx = 7,
     r_Wh = 8, r_b = 9, r_activation = 10, r_input = 11, r_forget = 12, r_output = 13,
     r_block_input = 14\<rparr>"

definition ex_store_after :: store where
  "ex_store_after = [Arr2 ex_one, Arr2 ex_dct,
     Arr2 ex_zero, Arr2 ex_zero, Arr2 ex_two, Arr2 ex_h1, Arr2 ex_one, Arr2 ex_W, Arr2 ex_W,
     Arr1 ex_b, Arr2 ex_W, Arr2 ex_half, Arr2 ex_half, Arr2 ex_half, Arr2 ex_zero,
     Arr2 ex_zero, Arr2 ex_zero, Arr2 ex_dpc, Arr2 ex_W, Arr2 ex_W, Arr1 ex_db]"

text \<open>
  A store for one backward pass over a sequence of one timestep: the same cache, and
  \<open>dh\<close> of shape \<open>(1, 1, 1)\<close> at address 0.
\<close>

definition ex_store3 :: store where
  "ex_store3 = [Arr3 ex_dh3, Arr2 ex_zero,
     Arr2 ex_zero, Arr2 ex_zero, Arr2 ex_two, Arr2 ex_h1, Arr2 ex_one, Arr2 ex_W, Arr2 ex_W,
     Arr1 ex_b, Arr2 ex_W, Arr2 ex_half, Arr2 ex_half, Arr2 ex_half, Arr2 ex_zero]"

text \<open>
  The same store after the eight calls of \<open>np.zeros\<close> in \<open>lstm_backward\<close>, and when
  \<open>lstm_backward\<close> has returned: the accumulators at 15 to 19, the carries at 20 to 22,
  \<open>dh_current\<close> at 23 and the six results of the one step at 24 to 29.
\<close>

definition ex_store3_zeros :: store where
  "ex_store3_zeros = ex_store3 @
     [Arr3 ex_dx3, Arr2 ex_zero, Arr2 ex_W, Arr2 ex_W, Arr1 ex_b,
      Arr2 ex_zero, Arr2 ex_zero, Arr2 ex_zero]"

definition ex_store3_after :: store where
  "ex_store3_after = ex_store3 @
     [Arr3 ex_dx3, Arr2 ex_zero, Arr2 ex_W, Arr2 ex_W, Arr1 ex_db,
      Arr2 ex_zero, Arr2 ex_zero, Arr2 ex_dct,
      Arr2 ex_one,
      Arr2 ex_zero, Arr2 ex_zero, Arr2 ex_dpc, Arr2 ex_W, Arr2 ex_W, Arr1 ex_db]"

section \<open>Properties of the arrays\<close>

lemma nrows_mk_mat [simp]: "nrows (mk_mat n m f) = n"
  by (simp add: mk_mat_def)

lemma ncols_mk_mat [simp]: "ncols (mk_mat n m f) = m"
  by (simp add: mk_mat_def)

lemma el_mk_mat [simp]: "i < n \<Longrightarrow> j < m \<Longrightarrow> el (mk_mat n m f) i j = f i j"
  by (simp add: mk_mat_def el_def)

lemma wf_mk_mat [simp]: "wf_mat (mk_mat n m f)"
  by (simp add: wf_mat_def mk_mat_def list_all_iff)

lemma has_shape_mk_mat [simp]: "has_shape (mk_mat n m f) n' m' \<longleftrightarrow> n = n' \<and> m = m'"
  by (auto simp: has_shape_def)

lemma mk_mat_congs:
  "n = n' \<Longrightarrow> m = m' \<Longrightarrow> (\<And>i j. i < n' \<Longrightarrow> j < m' \<Longrightarrow> f i j = g i j) \<Longrightarrow>
   mk_mat n m f = mk_mat n' m' g"
  by (simp add: mk_mat_def)

lemma mk_mat_el: "wf_mat A \<Longrightarrow> mk_mat (nrows A) (ncols A) (el A) = A"
  by (cases A) (auto simp: wf_mat_def mk_mat_def el_def list_all_iff intro!: nth_equalityI)

lemma bel_el: "i < nrows A \<Longrightarrow> j < ncols A \<Longrightarrow> bel A i j = el A i j"
  by (auto simp: bel_def)

lemma bc2_same:
  "nrows B = nrows A \<Longrightarrow> ncols B = ncols A \<Longrightarrow>
   bc2 g A B = Some (mk_mat (nrows A) (ncols A) (\<lambda>i j. g (el A i j) (el B i j)))"
  by (auto simp: bc2_def bshape_def bel_el intro!: mk_mat_congs)

lemma add_m_same:
  "nrows B = nrows A \<Longrightarrow> ncols B = ncols A \<Longrightarrow>
   add_m A B = Some (mk_mat (nrows A) (ncols A) (\<lambda>i j. el A i j + el B i j))"
  by (simp add: add_m_def bc2_same)

lemma mul_m_same:
  "nrows B = nrows A \<Longrightarrow> ncols B = ncols A \<Longrightarrow>
   mul_m A B = Some (mk_mat (nrows A) (ncols A) (\<lambda>i j. el A i j * el B i j))"
  by (simp add: mul_m_def bc2_same)

lemma add_row_same:
  "length b = ncols A \<Longrightarrow>
   add_row A b = Some (mk_mat (nrows A) (ncols A) (\<lambda>i j. el A i j + b ! j))"
  by (auto simp: add_row_def add_m_def bc2_def bshape_def row_mat_def bel_def
           intro!: mk_mat_congs)

lemma dot_fits:
  "nrows B = ncols A \<Longrightarrow>
   dot A B = Some (mk_mat (nrows A) (ncols B) (\<lambda>i j. \<Sum>k<ncols A. el A i k * el B k j))"
  by (simp add: dot_def)

lemma slice_cols_eq:
  "hi \<le> ncols a \<Longrightarrow> lo \<le> hi \<Longrightarrow>
   slice_cols lo hi a = mk_mat (nrows a) (hi - lo) (\<lambda>n j. el a n (lo + j))"
  by (auto simp: slice_cols_def slice_width_def slice_start_def min_def intro!: mk_mat_congs)

lemmas ex_defs = ex_zero_def ex_one_def ex_two_def ex_W_def ex_b_def ex_half_def ex_h1_def
  ex_b1_def ex_x3_def ex_x0_def ex_dh3_def ex_c1_def ex_h2_def ex_dct_def ex_dpc_def ex_db_def
  ex_dx3_def

lemmas eval_simps = mk_mat_def mk_vec_def mk_ten_def el_def el3_def eval_nat_numeral lessThan_Suc
  Let_def

section \<open>The stable sigmoid\<close>

lemma sigmoid1_logistic: "sigmoid1 x = logistic x"
proof (cases "x < 0")
  case True
  have "exp x / (1 + exp x) = 1 / (1 + exp (- x))"
    by (simp add: exp_minus field_simps)
  with True show ?thesis
    by (simp add: sigmoid1_def sigmoid_top_def sigmoid_z_def neg_mask_def logistic_def)
next
  case False
  then show ?thesis
    by (simp add: sigmoid1_def sigmoid_top_def sigmoid_z_def neg_mask_def pos_mask_def
                  logistic_def)
qed

lemma sigmoid_map_logistic: "sigmoid = map_mat logistic"
  by (rule ext) (simp add: sigmoid_def map_mat_def sigmoid1_logistic)

text \<open>
  Claim C3. On every array \<open>sigmoid\<close> is the elementwise logistic function
  \<open>1 / (1 + e\<^sup>-\<^sup>x)\<close>. An element \<open>x \<ge> 0\<close> is computed as \<open>1 / (1 + e\<^sup>-\<^sup>x)\<close> and an
  element \<open>x < 0\<close> as \<open>e\<^sup>x / (1 + e\<^sup>x)\<close>; the exponential is taken of \<open>- x\<close> in the first
  case and of \<open>x\<close> in the second, so its argument is never positive, and both forms are
  the logistic function.
\<close>

theorem sigmoid_stable_logistic:
  "sigmoid A = map_mat logistic A \<and>
   sigmoid1 x = 1 / (1 + exp (- x)) \<and>
   sigmoid_z x = exp (sigmoid_exp_arg x) \<and>
   sigmoid_exp_arg x \<le> 0 \<and>
   (0 \<le> x \<longrightarrow> sigmoid_exp_arg x = - x \<and> sigmoid_top x = 1 \<and>
      sigmoid1 x = 1 / (1 + exp (- x))) \<and>
   (x < 0 \<longrightarrow> sigmoid_exp_arg x = x \<and> sigmoid_top x = exp x \<and>
      sigmoid1 x = exp x / (1 + exp x))"
proof -
  have "sigmoid1 x = 1 / (1 + exp (- x))"
    using sigmoid1_logistic[of x] by (simp add: logistic_def)
  moreover have "sigmoid_z x = exp (sigmoid_exp_arg x)" "sigmoid_exp_arg x \<le> 0"
    by (auto simp: sigmoid_z_def sigmoid_exp_arg_def neg_mask_def pos_mask_def)
  moreover have "x < 0 \<longrightarrow> sigmoid_exp_arg x = x \<and> sigmoid_top x = exp x \<and>
      sigmoid1 x = exp x / (1 + exp x)"
    by (simp add: sigmoid1_def sigmoid_top_def sigmoid_z_def sigmoid_exp_arg_def neg_mask_def)
  moreover have "0 \<le> x \<longrightarrow> sigmoid_exp_arg x = - x \<and> sigmoid_top x = 1"
    by (simp add: sigmoid_top_def sigmoid_exp_arg_def neg_mask_def)
  ultimately show ?thesis
    by (simp add: sigmoid_map_logistic)
qed

theorem sigmoid_stable_logistic_witness:
  "sigmoid ex_two = \<lparr>nrows = 1, ncols = 1, rows = [[1 / (1 + exp (- 2))]]\<rparr> \<and>
   sigmoid1 2 = 1 / (1 + exp (- 2)) \<and> sigmoid_exp_arg 2 = - 2 \<and>
   sigmoid1 (- 3) = exp (- 3) / (1 + exp (- 3)) \<and> sigmoid_exp_arg (- 3) = - 3"
  using sigmoid_stable_logistic[of ex_two 2] sigmoid_stable_logistic[of ex_two "- 3"]
  by (simp add: ex_defs map_mat_def logistic_def eval_simps)

section \<open>The forward step\<close>

lemma step_forward_activation:
  assumes "nrows x = N" "ncols x = D" "nrows prev_h = N" "ncols prev_h = H"
    "nrows Wx = D" "ncols Wx = 4 * H" "nrows Wh = H" "ncols Wh = 4 * H" "length b = 4 * H"
  shows "do { xw \<leftarrow> dot x Wx; hw \<leftarrow> dot prev_h Wh; s \<leftarrow> add_m xw hw; add_row s b }
         = Some (spec_activation x prev_h Wx Wh b)"
  using assms
  by (auto simp: dot_fits add_m_same add_row_same spec_activation_def intro!: mk_mat_congs)

lemma lstm_step_forward_eq:
  assumes "has_shape x N D" "has_shape prev_h N H" "has_shape prev_c N H"
    "has_shape Wx D (4 * H)" "has_shape Wh H (4 * H)" "length b = 4 * H"
  shows "lstm_step_forward x prev_h prev_c Wx Wh b =
     Some (spec_h_next x prev_h prev_c Wx Wh b, spec_c_next x prev_h prev_c Wx Wh b,
       \<lparr>c_x = x, c_prev_h = prev_h, c_prev_c = prev_c,
        c_next_h = spec_h_next x prev_h prev_c Wx Wh b,
        c_next_c = spec_c_next x prev_h prev_c Wx Wh b, c_Wx = Wx, c_Wh = Wh, c_b = b,
        c_activation = spec_activation x prev_h Wx Wh b,
        c_input = map_mat logistic (spec_block 0 H (spec_activation x prev_h Wx Wh b)),
        c_forget = map_mat logistic (spec_block 1 H (spec_activation x prev_h Wx Wh b)),
        c_output = map_mat logistic (spec_block 2 H (spec_activation x prev_h Wx Wh b)),
        c_block_input = map_mat tanh (spec_block 3 H (spec_activation x prev_h Wx Wh b))\<rparr>)"
proof -
  let ?a = "spec_activation x prev_h Wx Wh b"
  have sh: "nrows x = N" "ncols x = D" "nrows prev_h = N" "ncols prev_h = H"
    "nrows prev_c = N" "ncols prev_c = H"
    "nrows Wx = D" "ncols Wx = 4 * H" "nrows Wh = H" "ncols Wh = 4 * H"
    using assms by (simp_all add: has_shape_def)
  have act: "do { xw \<leftarrow> dot x Wx; hw \<leftarrow> dot prev_h Wh; s \<leftarrow> add_m xw hw; add_row s b }
         = Some ?a"
    by (rule step_forward_activation[OF sh(1-4) sh(7-10) assms(6)])
  have a: "nrows ?a = N" "ncols ?a = 4 * H"
    using sh assms(6) by (simp_all add: spec_activation_def)
  have b0: "slice_cols 0 H ?a = spec_block 0 H ?a"
    using a by (simp add: slice_cols_eq spec_block_def)
  have b1: "slice_cols H (2 * H) ?a = spec_block 1 H ?a"
    using a by (simp add: slice_cols_eq spec_block_def)
  have b2: "slice_cols (2 * H) (3 * H) ?a = spec_block 2 H ?a"
    using a by (simp add: slice_cols_eq spec_block_def)
  have b3: "slice_cols (3 * H) (4 * H) ?a = spec_block 3 H ?a"
    using a by (simp add: slice_cols_eq spec_block_def)
  have "lstm_step_forward x prev_h prev_c Wx Wh b = do {
     activation \<leftarrow> do { xw \<leftarrow> dot x Wx; hw \<leftarrow> dot prev_h Wh; s \<leftarrow> add_m xw hw; add_row s b };
     let input = sigmoid (slice_cols 0 H activation);
     let forget = sigmoid (slice_cols H (2 * H) activation);
     let output = sigmoid (slice_cols (2 * H) (3 * H) activation);
     let block_input = map_mat tanh (slice_cols (3 * H) (ncols activation) activation);
     fc \<leftarrow> mul_m forget prev_c;
     ig \<leftarrow> mul_m input block_input;
     next_c \<leftarrow> add_m fc ig;
     next_h \<leftarrow> mul_m output (map_mat tanh next_c);
     Some (next_h, next_c,
       \<lparr>c_x = x, c_prev_h = prev_h, c_prev_c = prev_c, c_next_h = next_h,
        c_next_c = next_c, c_Wx = Wx, c_Wh = Wh, c_b = b, c_activation = activation,
        c_input = input, c_forget = forget, c_output = output,
        c_block_input = block_input\<rparr>)
   }"
    by (simp add: lstm_step_forward_def sh Let_def)
  then show ?thesis
    by (simp add: act Let_def b0 b1 b2 b3 sigmoid_map_logistic mul_m_same add_m_same
        map_mat_def spec_block_def a sh spec_c_next_def spec_h_next_def cong: mk_mat_congs)
qed

text \<open>
  Claim C2. For \<open>x\<close> (N\<times>D), \<open>h_prev\<close> (N\<times>H), \<open>c_prev\<close> (N\<times>H), \<open>Wx\<close> (D\<times>4H), \<open>Wh\<close> (H\<times>4H)
  and \<open>b\<close> (4H), \<open>lstm_step_forward\<close> returns, and what it returns is what the
  specification words: the activation is \<open>x\<cdot>Wx + h_prev\<cdot>Wh + b\<close> with the bias added to every
  row, the gates are the logistic function of its first three blocks of width \<open>H\<close> and the
  block input is \<open>tanh\<close> of the fourth, \<open>c_next = f \<odot> c_prev + i \<odot> g\<close> and
  \<open>h_next = o \<odot> tanh(c_next)\<close>.
\<close>

theorem lstm_step_forward_spec:
  assumes "has_shape x N D" "has_shape prev_h N H" "has_shape prev_c N H"
    "has_shape Wx D (4 * H)" "has_shape Wh H (4 * H)" "length b = 4 * H"
  shows "\<exists>cache. lstm_step_forward x prev_h prev_c Wx Wh b =
           Some (spec_h_next x prev_h prev_c Wx Wh b,
                 spec_c_next x prev_h prev_c Wx Wh b, cache)
         \<and> c_activation cache = spec_activation x prev_h Wx Wh b
         \<and> c_input cache = map_mat logistic (spec_block 0 H (c_activation cache))
         \<and> c_forget cache = map_mat logistic (spec_block 1 H (c_activation cache))
         \<and> c_output cache = map_mat logistic (spec_block 2 H (c_activation cache))
         \<and> c_block_input cache = map_mat tanh (spec_block 3 H (c_activation cache))"
  by (simp add: lstm_step_forward_eq[OF assms])

theorem lstm_step_forward_spec_witness:
  "\<exists>cache. lstm_step_forward ex_zero ex_zero ex_two ex_W ex_W ex_b =
           Some (\<lparr>nrows = 1, ncols = 1, rows = [[tanh 1 / 2]]\<rparr>,
                 \<lparr>nrows = 1, ncols = 1, rows = [[1]]\<rparr>, cache)
         \<and> c_activation cache = ex_W"
proof -
  have sh: "has_shape ex_zero 1 1" "has_shape ex_two 1 1" "has_shape ex_W 1 (4 * 1)"
    "length ex_b = 4 * 1"
    by (simp_all add: ex_defs has_shape_def wf_mat_def)
  have h: "spec_h_next ex_zero ex_zero ex_two ex_W ex_W ex_b =
      \<lparr>nrows = 1, ncols = 1, rows = [[tanh 1 / 2]]\<rparr>"
    by (simp add: spec_h_next_def spec_c_next_def spec_activation_def spec_block_def
        map_mat_def logistic_def ex_defs eval_simps)
  have c: "spec_c_next ex_zero ex_zero ex_two ex_W ex_W ex_b =
      \<lparr>nrows = 1, ncols = 1, rows = [[1]]\<rparr>"
    by (simp add: spec_c_next_def spec_activation_def spec_block_def
        map_mat_def logistic_def ex_defs eval_simps)
  have a: "spec_activation ex_zero ex_zero ex_W ex_W ex_b = ex_W"
    by (simp add: spec_activation_def ex_defs eval_simps)
  show ?thesis
    using lstm_step_forward_spec[OF sh(1) sh(1) sh(2) sh(3) sh(3) sh(4)]
    by (auto simp: h c a)
qed

section \<open>The backward step\<close>

lemma set_cols_eq:
  "lo + w = hi \<Longrightarrow> hi \<le> ncols A \<Longrightarrow> nrows V = nrows A \<Longrightarrow> ncols V = w \<Longrightarrow>
   set_cols lo hi A V =
     Some (mk_mat (nrows A) (ncols A)
       (\<lambda>i j. if lo \<le> j \<and> j < hi then el V i (j - lo) else el A i j))"
  by (auto simp: set_cols_def fits_def slice_start_def slice_width_def min_def bel_el
      intro!: mk_mat_congs)

lemma iadd_same:
  "nrows V = nrows A \<Longrightarrow> ncols V = ncols A \<Longrightarrow>
   iadd A V = Some (mk_mat (nrows A) (ncols A) (\<lambda>i j. el A i j + el V i j))"
  by (auto simp: iadd_def fits_def bel_el intro!: mk_mat_congs)

lemma dnext_c_update_eq:
  assumes "nrows dnext_h = N" "ncols dnext_h = H" "nrows dnext_c = N" "ncols dnext_c = H"
    "wf_cache N D H cache"
  shows "dnext_c_update dnext_h dnext_c cache = Some (dc_total dnext_h dnext_c cache)"
  using assms
  by (simp add: dnext_c_update_def wf_cache_def has_shape_def mul_m_same iadd_same map_mat_def
      dc_total_def cong: mk_mat_congs)

lemma dact_chain:
  assumes "nrows dnext_h = N" "ncols dnext_h = H" "nrows dc = N" "ncols dc = H"
    "wf_cache N D H cache"
  shows "do {
     dinput_gate \<leftarrow> mul_m dc (c_block_input cache);
     dblock_input \<leftarrow> mul_m dc (c_input cache);
     dforget_gate \<leftarrow> mul_m dc (c_prev_c cache);
     doutput_gate \<leftarrow> mul_m dnext_h (map_mat tanh (c_next_c cache));
     let dactivation = zeros N (4 * H);
     t \<leftarrow> mul_m dinput_gate (c_input cache);
     v \<leftarrow> mul_m t (map_mat (\<lambda>v. 1 - v) (c_input cache));
     dactivation \<leftarrow> set_cols 0 H dactivation v;
     t \<leftarrow> mul_m dforget_gate (c_forget cache);
     v \<leftarrow> mul_m t (map_mat (\<lambda>v. 1 - v) (c_forget cache));
     dactivation \<leftarrow> set_cols H (2 * H) dactivation v;
     t \<leftarrow> mul_m doutput_gate (c_output cache);
     v \<leftarrow> mul_m t (map_mat (\<lambda>v. 1 - v) (c_output cache));
     dactivation \<leftarrow> set_cols (2 * H) (3 * H) dactivation v;
     v \<leftarrow> mul_m dblock_input
            (map_mat (\<lambda>v. 1 - v) (map_mat (\<lambda>v. v ^ 2) (c_block_input cache)));
     set_cols (3 * H) (ncols dactivation) dactivation v
   } = Some (mk_mat N (4 * H) (dact_el H dnext_h dc cache))"
  using assms
  apply (simp add: wf_cache_def has_shape_def mul_m_same Let_def
      map_mat_def zeros_def set_cols_eq dact_el_def
      cong: mk_mat_congs if_cong)
  apply (rule mk_mat_congs; simp)
  done

lemma lstm_step_backward_rest_eq:
  assumes "nrows dnext_h = N" "ncols dnext_h = H" "nrows dc = N" "ncols dc = H"
    "wf_cache N D H cache"
  shows "lstm_step_backward_rest dnext_h dc cache =
    (let da = mk_mat N (4 * H) (dact_el H dnext_h dc cache) in
     Some (da,
       mk_mat N D (\<lambda>n d. \<Sum>m<4 * H. el da n m * el (c_Wx cache) d m),
       mk_mat N H (\<lambda>n k. \<Sum>m<4 * H. el da n m * el (c_Wh cache) k m),
       mk_mat N H (\<lambda>n j. el dc n j * el (c_forget cache) n j),
       mk_mat D (4 * H) (\<lambda>d m. \<Sum>n<N. el (c_x cache) n d * el da n m),
       mk_mat H (4 * H) (\<lambda>k m. \<Sum>n<N. el (c_prev_h cache) n k * el da n m),
       mk_vec (4 * H) (\<lambda>m. \<Sum>n<N. el da n m)))"
proof -
  have sh: "nrows (c_forget cache) = N" "ncols (c_forget cache) = H"
    "nrows (c_Wx cache) = D" "ncols (c_Wx cache) = 4 * H"
    "nrows (c_Wh cache) = H" "ncols (c_Wh cache) = 4 * H"
    "nrows (c_x cache) = N" "ncols (c_x cache) = D"
    "nrows (c_prev_h cache) = N" "ncols (c_prev_h cache) = H"
    using assms(5) by (simp_all add: wf_cache_def has_shape_def)
  have "lstm_step_backward_rest dnext_h dc cache = do {
     dprev_c \<leftarrow> mul_m dc (c_forget cache);
     dactivation \<leftarrow> do {
     dinput_gate \<leftarrow> mul_m dc (c_block_input cache);
     dblock_input \<leftarrow> mul_m dc (c_input cache);
     dforget_gate \<leftarrow> mul_m dc (c_prev_c cache);
     doutput_gate \<leftarrow> mul_m dnext_h (map_mat tanh (c_next_c cache));
     let dactivation = zeros N (4 * H);
     t \<leftarrow> mul_m dinput_gate (c_input cache);
     v \<leftarrow> mul_m t (map_mat (\<lambda>v. 1 - v) (c_input cache));
     dactivation \<leftarrow> set_cols 0 H dactivation v;
     t \<leftarrow> mul_m dforget_gate (c_forget cache);
     v \<leftarrow> mul_m t (map_mat (\<lambda>v. 1 - v) (c_forget cache));
     dactivation \<leftarrow> set_cols H (2 * H) dactivation v;
     t \<leftarrow> mul_m doutput_gate (c_output cache);
     v \<leftarrow> mul_m t (map_mat (\<lambda>v. 1 - v) (c_output cache));
     dactivation \<leftarrow> set_cols (2 * H) (3 * H) dactivation v;
     v \<leftarrow> mul_m dblock_input
            (map_mat (\<lambda>v. 1 - v) (map_mat (\<lambda>v. v ^ 2) (c_block_input cache)));
     set_cols (3 * H) (ncols dactivation) dactivation v };
     dx \<leftarrow> dot dactivation (transpose_m (c_Wx cache));
     dWx \<leftarrow> dot (transpose_m (c_x cache)) dactivation;
     dWh \<leftarrow> dot (transpose_m (c_prev_h cache)) dactivation;
     dprev_h \<leftarrow> dot dactivation (transpose_m (c_Wh cache));
     let db = sum_axis0 dactivation;
     Some (dactivation, dx, dprev_h, dprev_c, dWx, dWh, db)
   }"
    by (simp add: lstm_step_backward_rest_def Let_def assms(1,2))
  also have "\<dots> = (let da = mk_mat N (4 * H) (dact_el H dnext_h dc cache) in
     Some (da,
       mk_mat N D (\<lambda>n d. \<Sum>m<4 * H. el da n m * el (c_Wx cache) d m),
       mk_mat N H (\<lambda>n k. \<Sum>m<4 * H. el da n m * el (c_Wh cache) k m),
       mk_mat N H (\<lambda>n j. el dc n j * el (c_forget cache) n j),
       mk_mat D (4 * H) (\<lambda>d m. \<Sum>n<N. el (c_x cache) n d * el da n m),
       mk_mat H (4 * H) (\<lambda>k m. \<Sum>n<N. el (c_prev_h cache) n k * el da n m),
       mk_vec (4 * H) (\<lambda>m. \<Sum>n<N. el da n m)))"
    unfolding dact_chain[OF assms]
    by (simp add: mul_m_same assms(1-4) sh dot_fits transpose_m_def
        sum_axis0_def Let_def cong: mk_mat_congs)
  finally show ?thesis .
qed

section \<open>Differentiating the forward step\<close>

lemma DERIV_logistic: "(logistic has_real_derivative logistic x * (1 - logistic x)) (at x)"
proof -
  have pos: "1 + exp (- x) \<noteq> 0"
    using exp_gt_zero[of "- x"] by linarith
  have "((\<lambda>x. 1 / (1 + exp (- x))) has_real_derivative
          (exp (- x) / (1 + exp (- x))\<^sup>2)) (at x)"
    using pos by (auto intro!: derivative_eq_intros simp: power2_eq_square)
  moreover have "exp (- x) / (1 + exp (- x))\<^sup>2 = logistic x * (1 - logistic x)"
    using pos by (simp add: logistic_def field_simps power2_eq_square)
  ultimately show ?thesis
    by (simp add: logistic_def[abs_def])
qed

lemmas DERIV_logistic_chain = DERIV_chain2[OF DERIV_logistic]

lemma cell_loss_deriv:
  fixes dh dc :: real
  assumes "(Ai has_real_derivative ai') (at t)" "(Af has_real_derivative af') (at t)"
    "(Ao has_real_derivative ao') (at t)" "(Ag has_real_derivative ag') (at t)"
    "(C has_real_derivative c') (at t)"
  defines "i \<equiv> logistic (Ai t)" and "f \<equiv> logistic (Af t)" and "og \<equiv> logistic (Ao t)"
    and "g \<equiv> tanh (Ag t)"
  defines "cn \<equiv> f * C t + i * g"
  defines "dct \<equiv> dc + dh * og * (1 - (tanh cn)\<^sup>2)"
  shows "((\<lambda>t. cell_loss dh dc (Ai t) (Af t) (Ao t) (Ag t) (C t)) has_real_derivative
           (dct * g * i * (1 - i) * ai' + dct * C t * f * (1 - f) * af'
            + dh * tanh cn * og * (1 - og) * ao' + dct * i * (1 - g\<^sup>2) * ag'
            + dct * f * c')) (at t)"
  unfolding cell_loss_def
  apply (rule derivative_eq_intros DERIV_logistic_chain assms(1-5) | simp)+
  apply (simp add: i_def f_def og_def g_def cn_def dct_def algebra_simps)
  done


lemma el_spec_activation:
  "n < nrows x \<Longrightarrow> m < length b \<Longrightarrow>
   el (spec_activation x h Wx Wh b) n m =
     (\<Sum>k<ncols x. el x n k * el Wx k m) + (\<Sum>k<ncols h. el h n k * el Wh k m) + b ! m"
  by (simp add: spec_activation_def)

lemma vjp_loss_eq:
  assumes "has_shape x N D" "has_shape prev_h N H" "has_shape prev_c N H"
    "has_shape Wx D (4 * H)" "has_shape Wh H (4 * H)" "length b = 4 * H"
  shows "vjp_loss dh dc (lstm_step_forward x prev_h prev_c Wx Wh b) =
    (\<Sum>n<N. \<Sum>j<H.
       cell_loss (el dh n j) (el dc n j)
         (el (spec_activation x prev_h Wx Wh b) n j)
         (el (spec_activation x prev_h Wx Wh b) n (H + j))
         (el (spec_activation x prev_h Wx Wh b) n (2 * H + j))
         (el (spec_activation x prev_h Wx Wh b) n (3 * H + j))
         (el prev_c n j))"
proof -
  have sh: "nrows x = N" "ncols prev_h = H"
    using assms by (simp_all add: has_shape_def)
  have lenb: "length b = 4 * H"
    by (rule assms(6))
  have "vjp_loss dh dc (lstm_step_forward x prev_h prev_c Wx Wh b) =
    (\<Sum>n<N. \<Sum>j<H. el dh n j * el (spec_h_next x prev_h prev_c Wx Wh b) n j
                   + el dc n j * el (spec_c_next x prev_h prev_c Wx Wh b) n j)"
    unfolding lstm_step_forward_eq[OF assms] vjp_loss_def
    by (simp add: spec_h_next_def spec_c_next_def Let_def sh)
  also have "\<dots> = (\<Sum>n<N. \<Sum>j<H.
       cell_loss (el dh n j) (el dc n j)
         (el (spec_activation x prev_h Wx Wh b) n j)
         (el (spec_activation x prev_h Wx Wh b) n (H + j))
         (el (spec_activation x prev_h Wx Wh b) n (2 * H + j))
         (el (spec_activation x prev_h Wx Wh b) n (3 * H + j))
         (el prev_c n j))"
    apply (intro sum.cong refl)
    apply (simp add: spec_h_next_def spec_c_next_def Let_def sh map_mat_def spec_block_def
        cell_loss_def)
    apply (simp add: spec_activation_def sh lenb)
    done
  finally show ?thesis .
qed


lemma vjp_loss_deriv:
  fixes X HP CP WX WH :: "real \<Rightarrow> mat" and B :: "real \<Rightarrow> vec"
  assumes sh: "\<And>t. has_shape (X t) N D" "\<And>t. has_shape (HP t) N H"
      "\<And>t. has_shape (CP t) N H" "\<And>t. has_shape (WX t) D (4 * H)"
      "\<And>t. has_shape (WH t) H (4 * H)" "\<And>t. length (B t) = 4 * H"
    and da: "\<And>n m. n < N \<Longrightarrow> m < 4 * H \<Longrightarrow>
      ((\<lambda>t. el (spec_activation (X t) (HP t) (WX t) (WH t) (B t)) n m)
         has_real_derivative a' n m) (at t0)"
    and dcp: "\<And>n j. n < N \<Longrightarrow> j < H \<Longrightarrow>
      ((\<lambda>t. el (CP t) n j) has_real_derivative c' n j) (at t0)"
    and fw: "lstm_step_forward (X t0) (HP t0) (CP t0) (WX t0) (WH t0) (B t0)
               = Some (hn, cn, cache)"
    and dsh: "nrows dh = N" "ncols dh = H" "nrows dc = N" "ncols dc = H"
  defines "da \<equiv> dact_el H dh (dc_total dh dc cache) cache"
  shows "((\<lambda>t. vjp_loss dh dc (lstm_step_forward (X t) (HP t) (CP t) (WX t) (WH t) (B t)))
      has_real_derivative
        (\<Sum>n<N. \<Sum>j<H.
           da n j * a' n j + da n (H + j) * a' n (H + j)
           + da n (2 * H + j) * a' n (2 * H + j) + da n (3 * H + j) * a' n (3 * H + j)
           + el (dc_total dh dc cache) n j * el (c_forget cache) n j * c' n j)) (at t0)"
proof -
  let ?a = "\<lambda>t. spec_activation (X t) (HP t) (WX t) (WH t) (B t)"
  have cache: "cache = \<lparr>c_x = X t0, c_prev_h = HP t0, c_prev_c = CP t0,
        c_next_h = spec_h_next (X t0) (HP t0) (CP t0) (WX t0) (WH t0) (B t0),
        c_next_c = spec_c_next (X t0) (HP t0) (CP t0) (WX t0) (WH t0) (B t0),
        c_Wx = WX t0, c_Wh = WH t0, c_b = B t0,
        c_activation = ?a t0,
        c_input = map_mat logistic (spec_block 0 H (?a t0)),
        c_forget = map_mat logistic (spec_block 1 H (?a t0)),
        c_output = map_mat logistic (spec_block 2 H (?a t0)),
        c_block_input = map_mat tanh (spec_block 3 H (?a t0))\<rparr>"
    using fw unfolding lstm_step_forward_eq[OF sh] by auto
  have ash: "nrows (?a t0) = N" "ncols (?a t0) = 4 * H"
    using sh(1)[of t0] sh(6)[of t0] by (simp_all add: spec_activation_def has_shape_def)
  have shH: "ncols (HP t0) = H" "nrows (X t0) = N"
    using sh(1)[of t0] sh(2)[of t0] by (simp_all add: has_shape_def)
  have eq: "(\<lambda>t. vjp_loss dh dc (lstm_step_forward (X t) (HP t) (CP t) (WX t) (WH t) (B t)))
    = (\<lambda>t. \<Sum>n<N. \<Sum>j<H.
       cell_loss (el dh n j) (el dc n j) (el (?a t) n j) (el (?a t) n (H + j))
         (el (?a t) n (2 * H + j)) (el (?a t) n (3 * H + j)) (el (CP t) n j))"
    by (rule ext) (rule vjp_loss_eq[OF sh])
  show ?thesis
    unfolding eq
  proof (intro DERIV_sum)
    fix n j assume "n \<in> {..<N}" "j \<in> {..<H}"
    then have n: "n < N" and j: "j < H" by simp_all
    have j4: "j < 4 * H" "H + j < 4 * H" "2 * H + j < 4 * H" "3 * H + j < 4 * H"
      using j by simp_all
    have els: "el (c_input cache) n j = logistic (el (?a t0) n j)"
      "el (c_forget cache) n j = logistic (el (?a t0) n (H + j))"
      "el (c_output cache) n j = logistic (el (?a t0) n (2 * H + j))"
      "el (c_block_input cache) n j = tanh (el (?a t0) n (3 * H + j))"
      "el (c_prev_c cache) n j = el (CP t0) n j"
      "el (c_next_c cache) n j =
         logistic (el (?a t0) n (H + j)) * el (CP t0) n j
         + logistic (el (?a t0) n j) * tanh (el (?a t0) n (3 * H + j))"
      using n j by (simp_all add: cache map_mat_def spec_block_def ash spec_c_next_def
          Let_def shH)
    have dct: "el (dc_total dh dc cache) n j =
       el dc n j + el dh n j * el (c_output cache) n j
         * (1 - (tanh (el (c_next_c cache) n j))\<^sup>2)"
      using n j by (simp add: dc_total_def dsh)
    have das: "da n j = el (dc_total dh dc cache) n j * el (c_block_input cache) n j
          * el (c_input cache) n j * (1 - el (c_input cache) n j)"
      "da n (H + j) = el (dc_total dh dc cache) n j * el (c_prev_c cache) n j
          * el (c_forget cache) n j * (1 - el (c_forget cache) n j)"
      "da n (2 * H + j) = el dh n j * tanh (el (c_next_c cache) n j)
          * el (c_output cache) n j * (1 - el (c_output cache) n j)"
      "da n (3 * H + j) = el (dc_total dh dc cache) n j * el (c_input cache) n j
          * (1 - (el (c_block_input cache) n j)\<^sup>2)"
      using j by (simp_all add: da_def dact_el_def)
    show "((\<lambda>t. cell_loss (el dh n j) (el dc n j) (el (?a t) n j) (el (?a t) n (H + j))
         (el (?a t) n (2 * H + j)) (el (?a t) n (3 * H + j)) (el (CP t) n j))
      has_real_derivative
        da n j * a' n j + da n (H + j) * a' n (H + j)
           + da n (2 * H + j) * a' n (2 * H + j) + da n (3 * H + j) * a' n (3 * H + j)
           + el (dc_total dh dc cache) n j * el (c_forget cache) n j * c' n j) (at t0)"
      unfolding das dct els
      by (rule cell_loss_deriv[OF da[OF n j4(1)] da[OF n j4(2)] da[OF n j4(3)]
            da[OF n j4(4)] dcp[OF n j]])
  qed
qed


lemma has_shape_set_el [simp]: "has_shape (set_el A i j t) N M \<longleftrightarrow> nrows A = N \<and> ncols A = M"
  by (simp add: set_el_def)

lemma el_set_el:
  "i' < nrows A \<Longrightarrow> j' < ncols A \<Longrightarrow>
   el (set_el A i j t) i' j' = (if i' = i \<and> j' = j then 1 else 0) * t
                               + (if i' = i \<and> j' = j then 0 else el A i' j')"
  by (simp add: set_el_def)

lemma set_el_same: "wf_mat A \<Longrightarrow> set_el A i j (el A i j) = A"
proof -
  assume wf: "wf_mat A"
  have "set_el A i j (el A i j) = mk_mat (nrows A) (ncols A) (el A)"
    unfolding set_el_def by (rule mk_mat_congs) auto
  then show ?thesis
    by (simp add: mk_mat_el[OF wf])
qed

lemma nrows_set_el [simp]: "nrows (set_el A i j t) = nrows A"
  and ncols_set_el [simp]: "ncols (set_el A i j t) = ncols A"
  by (simp_all add: set_el_def)

lemma sum_blocks4:
  fixes F :: "nat \<Rightarrow> real"
  shows "(\<Sum>m<4 * H. F m) = (\<Sum>j<H. F j + F (H + j) + F (2 * H + j) + F (3 * H + j))"
proof -
  have split: "\<And>a G. (\<Sum>m<a + H. G m) = (\<Sum>m<a. G m) + (\<Sum>j<H. (G (a + j) :: real))"
  proof -
    fix a and G :: "nat \<Rightarrow> real"
    show "(\<Sum>m<a + H. G m) = (\<Sum>m<a. G m) + (\<Sum>j<H. G (a + j))"
      by (induction H) (simp_all add: add.assoc)
  qed
  have "4 * H = ((0 + H + H) + H) + H" by simp
  then have "(\<Sum>m<4 * H. F m) = (\<Sum>m<((0 + H + H) + H) + H. F m)" by (simp only:)
  also have "\<dots> = (\<Sum>j<H. F j) + (\<Sum>j<H. F (H + j)) + (\<Sum>j<H. F (2 * H + j))
                    + (\<Sum>j<H. F (3 * H + j))"
    unfolding split by (simp add: mult_2 numeral_3_eq_3 add.assoc)
  finally show ?thesis
    by (simp add: sum.distrib)
qed

lemma act_deriv_x:
  assumes "has_shape x N D" "length b = 4 * H" "n < N" "m < 4 * H" "d0 < D"
  shows "((\<lambda>t. el (spec_activation (set_el x n0 d0 t) h Wx Wh b) n m)
           has_real_derivative (if n = n0 then el Wx d0 m else 0)) (at t0)"
proof -
  have sh: "nrows x = N" "ncols x = D"
    using assms(1) by (simp_all add: has_shape_def)
  have eq: "(\<lambda>t. el (spec_activation (set_el x n0 d0 t) h Wx Wh b) n m) =
    (\<lambda>t. (\<Sum>k<D. ((if n = n0 \<and> k = d0 then 1 else 0) * t
                    + (if n = n0 \<and> k = d0 then 0 else el x n k)) * el Wx k m)
         + (\<Sum>k<ncols h. el h n k * el Wh k m) + b ! m)"
    using assms(2-4) by (auto simp: el_spec_activation sh el_set_el intro!: sum.cong)
  have "((\<lambda>t. (\<Sum>k<D. ((if n = n0 \<and> k = d0 then 1 else 0) * t
                    + (if n = n0 \<and> k = d0 then 0 else el x n k)) * el Wx k m)
         + (\<Sum>k<ncols h. el h n k * el Wh k m) + b ! m)
        has_real_derivative (\<Sum>k<D. (if n = n0 \<and> k = d0 then 1 else 0) * el Wx k m))
        (at t0)"
    by (auto intro!: derivative_eq_intros)
  moreover have "(\<Sum>k<D. (if n = n0 \<and> k = d0 then 1 else 0) * el Wx k m)
      = (if n = n0 then el Wx d0 m else 0)"
  proof (cases "n = n0")
    case True
    have "(\<Sum>k<D. (if k = d0 then 1 else 0) * el Wx k m) = (\<Sum>k<D. if k = d0 then el Wx k m else 0)"
      by (intro sum.cong) auto
    with True assms(5) show ?thesis by simp
  next
    case False
    then show ?thesis by simp
  qed
  ultimately show ?thesis
    unfolding eq by simp
qed


lemma act_deriv_h:
  assumes "has_shape x N D" "has_shape h N H" "length b = 4 * H" "n < N" "m < 4 * H" "k0 < H"
  shows "((\<lambda>t. el (spec_activation x (set_el h n0 k0 t) Wx Wh b) n m)
           has_real_derivative (if n = n0 then el Wh k0 m else 0)) (at t0)"
proof -
  have sh: "nrows x = N" "nrows h = N" "ncols h = H"
    using assms(1,2) by (simp_all add: has_shape_def)
  have eq: "(\<lambda>t. el (spec_activation x (set_el h n0 k0 t) Wx Wh b) n m) =
    (\<lambda>t. (\<Sum>k<ncols x. el x n k * el Wx k m)
         + (\<Sum>k<H. ((if n = n0 \<and> k = k0 then 1 else 0) * t
                    + (if n = n0 \<and> k = k0 then 0 else el h n k)) * el Wh k m) + b ! m)"
    using assms(3-5) by (auto simp: el_spec_activation sh el_set_el intro!: sum.cong)
  have "((\<lambda>t. (\<Sum>k<ncols x. el x n k * el Wx k m)
         + (\<Sum>k<H. ((if n = n0 \<and> k = k0 then 1 else 0) * t
                    + (if n = n0 \<and> k = k0 then 0 else el h n k)) * el Wh k m) + b ! m)
        has_real_derivative (\<Sum>k<H. (if n = n0 \<and> k = k0 then 1 else 0) * el Wh k m))
        (at t0)"
    by (auto intro!: derivative_eq_intros)
  moreover have "(\<Sum>k<H. (if n = n0 \<and> k = k0 then 1 else 0) * el Wh k m)
      = (if n = n0 then el Wh k0 m else 0)"
  proof (cases "n = n0")
    case True
    have "(\<Sum>k<H. (if k = k0 then 1 else 0) * el Wh k m) = (\<Sum>k<H. if k = k0 then el Wh k m else 0)"
      by (intro sum.cong) auto
    with True assms(6) show ?thesis by simp
  next
    case False
    then show ?thesis by simp
  qed
  ultimately show ?thesis
    unfolding eq by simp
qed

lemma act_deriv_Wx:
  assumes "has_shape x N D" "has_shape Wx D (4 * H)" "length b = 4 * H"
    "n < N" "m < 4 * H" "d0 < D"
  shows "((\<lambda>t. el (spec_activation x h (set_el Wx d0 m0 t) Wh b) n m)
           has_real_derivative (if m = m0 then el x n d0 else 0)) (at t0)"
proof -
  have sh: "nrows x = N" "ncols x = D" "nrows Wx = D" "ncols Wx = 4 * H"
    using assms(1,2) by (simp_all add: has_shape_def)
  have eq: "(\<lambda>t. el (spec_activation x h (set_el Wx d0 m0 t) Wh b) n m) =
    (\<lambda>t. (\<Sum>k<D. el x n k * ((if k = d0 \<and> m = m0 then 1 else 0) * t
                    + (if k = d0 \<and> m = m0 then 0 else el Wx k m)))
         + (\<Sum>k<ncols h. el h n k * el Wh k m) + b ! m)"
    using assms(3-5) by (auto simp: el_spec_activation sh el_set_el intro!: sum.cong)
  have "((\<lambda>t. (\<Sum>k<D. el x n k * ((if k = d0 \<and> m = m0 then 1 else 0) * t
                    + (if k = d0 \<and> m = m0 then 0 else el Wx k m)))
         + (\<Sum>k<ncols h. el h n k * el Wh k m) + b ! m)
        has_real_derivative (\<Sum>k<D. el x n k * (if k = d0 \<and> m = m0 then 1 else 0)))
        (at t0)"
    by (auto intro!: derivative_eq_intros sum.cong)
  moreover have "(\<Sum>k<D. el x n k * (if k = d0 \<and> m = m0 then 1 else 0))
      = (if m = m0 then el x n d0 else 0)"
  proof (cases "m = m0")
    case True
    have "(\<Sum>k<D. el x n k * (if k = d0 then 1 else 0)) = (\<Sum>k<D. if k = d0 then el x n k else 0)"
      by (intro sum.cong) auto
    with True assms(6) show ?thesis by simp
  next
    case False
    then show ?thesis by simp
  qed
  ultimately show ?thesis
    unfolding eq by simp
qed

lemma act_deriv_Wh:
  assumes "has_shape x N D" "has_shape h N H" "has_shape Wh H (4 * H)" "length b = 4 * H"
    "n < N" "m < 4 * H" "k0 < H"
  shows "((\<lambda>t. el (spec_activation x h Wx (set_el Wh k0 m0 t) b) n m)
           has_real_derivative (if m = m0 then el h n k0 else 0)) (at t0)"
proof -
  have sh: "nrows x = N" "ncols h = H" "nrows Wh = H" "ncols Wh = 4 * H"
    using assms(1-3) by (simp_all add: has_shape_def)
  have eq: "(\<lambda>t. el (spec_activation x h Wx (set_el Wh k0 m0 t) b) n m) =
    (\<lambda>t. (\<Sum>k<ncols x. el x n k * el Wx k m)
         + (\<Sum>k<H. el h n k * ((if k = k0 \<and> m = m0 then 1 else 0) * t
                    + (if k = k0 \<and> m = m0 then 0 else el Wh k m))) + b ! m)"
    using assms(4-6) by (auto simp: el_spec_activation sh el_set_el intro!: sum.cong)
  have "((\<lambda>t. (\<Sum>k<ncols x. el x n k * el Wx k m)
         + (\<Sum>k<H. el h n k * ((if k = k0 \<and> m = m0 then 1 else 0) * t
                    + (if k = k0 \<and> m = m0 then 0 else el Wh k m))) + b ! m)
        has_real_derivative (\<Sum>k<H. el h n k * (if k = k0 \<and> m = m0 then 1 else 0)))
        (at t0)"
    by (auto intro!: derivative_eq_intros sum.cong)
  moreover have "(\<Sum>k<H. el h n k * (if k = k0 \<and> m = m0 then 1 else 0))
      = (if m = m0 then el h n k0 else 0)"
  proof (cases "m = m0")
    case True
    have "(\<Sum>k<H. el h n k * (if k = k0 then 1 else 0)) = (\<Sum>k<H. if k = k0 then el h n k else 0)"
      by (intro sum.cong) auto
    with True assms(7) show ?thesis by simp
  next
    case False
    then show ?thesis by simp
  qed
  ultimately show ?thesis
    unfolding eq by simp
qed

lemma act_deriv_b:
  assumes "has_shape x N D" "length b = 4 * H" "n < N" "m < 4 * H" "m0 < 4 * H"
  shows "((\<lambda>t. el (spec_activation x h Wx Wh (b[m0 := t])) n m)
           has_real_derivative (if m = m0 then 1 else 0)) (at t0)"
proof -
  have sh: "nrows x = N"
    using assms(1) by (simp_all add: has_shape_def)
  have eq: "(\<lambda>t. el (spec_activation x h Wx Wh (b[m0 := t])) n m) =
    (\<lambda>t. (\<Sum>k<ncols x. el x n k * el Wx k m) + (\<Sum>k<ncols h. el h n k * el Wh k m)
         + ((if m = m0 then 1 else 0) * t + (if m = m0 then 0 else b ! m)))"
    using assms(2-5) by (auto simp: el_spec_activation sh)
  show ?thesis
    unfolding eq by (auto intro!: derivative_eq_intros)
qed

lemma act_deriv_const:
  "((\<lambda>t. el (spec_activation x h Wx Wh b) n m) has_real_derivative 0) (at t0)"
  by simp

lemma el_deriv_set_el:
  assumes "has_shape c N H" "n < N" "j < H"
  shows "((\<lambda>t. el (set_el c n0 j0 t) n j) has_real_derivative
           (if n = n0 \<and> j = j0 then 1 else 0)) (at t0)"
proof -
  have eq: "(\<lambda>t. el (set_el c n0 j0 t) n j) =
     (\<lambda>t. (if n = n0 \<and> j = j0 then 1 else 0) * t + (if n = n0 \<and> j = j0 then 0 else el c n j))"
    using assms by (auto simp: el_set_el has_shape_def)
  show ?thesis
    unfolding eq by (auto intro!: derivative_eq_intros)
qed

lemma sum_pick_row:
  fixes F :: "nat \<Rightarrow> nat \<Rightarrow> real"
  assumes "n0 < N"
  shows "(\<Sum>n<N. \<Sum>j<H. if n = n0 then F n j else 0) = (\<Sum>j<H. F n0 j)"
proof -
  have "(\<Sum>n<N. \<Sum>j<H. if n = n0 then F n j else 0)
      = (\<Sum>n<N. if n = n0 then (\<Sum>j<H. F n j) else 0)"
    by (intro sum.cong) auto
  then show ?thesis
    using assms by simp
qed


lemma grad_x:
  assumes sh: "has_shape x N D" "has_shape h N H" "has_shape c N H"
      "has_shape Wx D (4 * H)" "has_shape Wh H (4 * H)" "length b = 4 * H"
    and dsh: "nrows dh = N" "ncols dh = H" "nrows dc = N" "ncols dc = H"
    and fw: "lstm_step_forward x h c Wx Wh b = Some (hn, cn, cache)"
    and idx: "n0 < N" "d0 < D"
  shows "((\<lambda>t. vjp_loss dh dc (lstm_step_forward (set_el x n0 d0 t) h c Wx Wh b))
      has_real_derivative
        (\<Sum>m<4 * H. dact_el H dh (dc_total dh dc cache) cache n0 m * el Wx d0 m))
      (at (el x n0 d0))"
proof -
  let ?da = "dact_el H dh (dc_total dh dc cache) cache"
  have wf: "wf_mat x" "nrows x = N" "ncols x = D"
    using sh(1) by (simp_all add: has_shape_def)
  have fw': "lstm_step_forward (set_el x n0 d0 (el x n0 d0)) h c Wx Wh b = Some (hn, cn, cache)"
    by (simp add: set_el_same[OF wf(1)] fw)
  have "((\<lambda>t. vjp_loss dh dc (lstm_step_forward (set_el x n0 d0 t) h c Wx Wh b))
      has_real_derivative
        (\<Sum>n<N. \<Sum>j<H.
           ?da n j * (if n = n0 then el Wx d0 j else 0)
           + ?da n (H + j) * (if n = n0 then el Wx d0 (H + j) else 0)
           + ?da n (2 * H + j) * (if n = n0 then el Wx d0 (2 * H + j) else 0)
           + ?da n (3 * H + j) * (if n = n0 then el Wx d0 (3 * H + j) else 0)
           + el (dc_total dh dc cache) n j * el (c_forget cache) n j * 0))
      (at (el x n0 d0))"
    by (rule vjp_loss_deriv[where X = "\<lambda>t. set_el x n0 d0 t" and HP = "\<lambda>t. h"
          and CP = "\<lambda>t. c" and WX = "\<lambda>t. Wx" and WH = "\<lambda>t. Wh" and B = "\<lambda>t. b"
          and c' = "\<lambda>n j. 0" and D = D and hn = hn and cn = cn])
       (simp_all add: sh wf dsh fw' act_deriv_x[OF sh(1) sh(6) _ _ idx(2)])
  moreover have "(\<Sum>n<N. \<Sum>j<H.
           ?da n j * (if n = n0 then el Wx d0 j else 0)
           + ?da n (H + j) * (if n = n0 then el Wx d0 (H + j) else 0)
           + ?da n (2 * H + j) * (if n = n0 then el Wx d0 (2 * H + j) else 0)
           + ?da n (3 * H + j) * (if n = n0 then el Wx d0 (3 * H + j) else 0)
           + el (dc_total dh dc cache) n j * el (c_forget cache) n j * 0)
      = (\<Sum>m<4 * H. ?da n0 m * el Wx d0 m)"
  proof -
    have "(\<Sum>n<N. \<Sum>j<H.
           ?da n j * (if n = n0 then el Wx d0 j else 0)
           + ?da n (H + j) * (if n = n0 then el Wx d0 (H + j) else 0)
           + ?da n (2 * H + j) * (if n = n0 then el Wx d0 (2 * H + j) else 0)
           + ?da n (3 * H + j) * (if n = n0 then el Wx d0 (3 * H + j) else 0)
           + el (dc_total dh dc cache) n j * el (c_forget cache) n j * 0)
       = (\<Sum>n<N. \<Sum>j<H. if n = n0 then
             ?da n j * el Wx d0 j + ?da n (H + j) * el Wx d0 (H + j)
             + ?da n (2 * H + j) * el Wx d0 (2 * H + j)
             + ?da n (3 * H + j) * el Wx d0 (3 * H + j) else 0)"
      by (intro sum.cong refl) simp
    also have "\<dots> = (\<Sum>j<H. ?da n0 j * el Wx d0 j + ?da n0 (H + j) * el Wx d0 (H + j)
             + ?da n0 (2 * H + j) * el Wx d0 (2 * H + j)
             + ?da n0 (3 * H + j) * el Wx d0 (3 * H + j))"
      by (rule sum_pick_row[OF idx(1)])
    also have "\<dots> = (\<Sum>m<4 * H. ?da n0 m * el Wx d0 m)"
      by (rule sum_blocks4[symmetric])
    finally show ?thesis .
  qed
  ultimately show ?thesis
    by simp
qed


lemma grad_h:
  assumes sh: "has_shape x N D" "has_shape h N H" "has_shape c N H"
      "has_shape Wx D (4 * H)" "has_shape Wh H (4 * H)" "length b = 4 * H"
    and dsh: "nrows dh = N" "ncols dh = H" "nrows dc = N" "ncols dc = H"
    and fw: "lstm_step_forward x h c Wx Wh b = Some (hn, cn, cache)"
    and idx: "n0 < N" "k0 < H"
  shows "((\<lambda>t. vjp_loss dh dc (lstm_step_forward x (set_el h n0 k0 t) c Wx Wh b))
      has_real_derivative
        (\<Sum>m<4 * H. dact_el H dh (dc_total dh dc cache) cache n0 m * el Wh k0 m))
      (at (el h n0 k0))"
proof -
  let ?da = "dact_el H dh (dc_total dh dc cache) cache"
  have wf: "wf_mat h" "nrows h = N" "ncols h = H"
    using sh(2) by (simp_all add: has_shape_def)
  have fw': "lstm_step_forward x (set_el h n0 k0 (el h n0 k0)) c Wx Wh b = Some (hn, cn, cache)"
    by (simp add: set_el_same[OF wf(1)] fw)
  have "((\<lambda>t. vjp_loss dh dc (lstm_step_forward x (set_el h n0 k0 t) c Wx Wh b))
      has_real_derivative
        (\<Sum>n<N. \<Sum>j<H.
           ?da n j * (if n = n0 then el Wh k0 j else 0)
           + ?da n (H + j) * (if n = n0 then el Wh k0 (H + j) else 0)
           + ?da n (2 * H + j) * (if n = n0 then el Wh k0 (2 * H + j) else 0)
           + ?da n (3 * H + j) * (if n = n0 then el Wh k0 (3 * H + j) else 0)
           + el (dc_total dh dc cache) n j * el (c_forget cache) n j * 0))
      (at (el h n0 k0))"
    by (rule vjp_loss_deriv[where X = "\<lambda>t. x" and HP = "\<lambda>t. set_el h n0 k0 t"
          and CP = "\<lambda>t. c" and WX = "\<lambda>t. Wx" and WH = "\<lambda>t. Wh" and B = "\<lambda>t. b"
          and c' = "\<lambda>n j. 0" and D = D and hn = hn and cn = cn])
       (simp_all add: sh wf dsh fw' act_deriv_h[OF sh(1) sh(2) sh(6) _ _ idx(2)])
  moreover have "(\<Sum>n<N. \<Sum>j<H.
           ?da n j * (if n = n0 then el Wh k0 j else 0)
           + ?da n (H + j) * (if n = n0 then el Wh k0 (H + j) else 0)
           + ?da n (2 * H + j) * (if n = n0 then el Wh k0 (2 * H + j) else 0)
           + ?da n (3 * H + j) * (if n = n0 then el Wh k0 (3 * H + j) else 0)
           + el (dc_total dh dc cache) n j * el (c_forget cache) n j * 0)
      = (\<Sum>m<4 * H. ?da n0 m * el Wh k0 m)"
  proof -
    have "(\<Sum>n<N. \<Sum>j<H.
           ?da n j * (if n = n0 then el Wh k0 j else 0)
           + ?da n (H + j) * (if n = n0 then el Wh k0 (H + j) else 0)
           + ?da n (2 * H + j) * (if n = n0 then el Wh k0 (2 * H + j) else 0)
           + ?da n (3 * H + j) * (if n = n0 then el Wh k0 (3 * H + j) else 0)
           + el (dc_total dh dc cache) n j * el (c_forget cache) n j * 0)
       = (\<Sum>n<N. \<Sum>j<H. if n = n0 then
             ?da n j * el Wh k0 j + ?da n (H + j) * el Wh k0 (H + j)
             + ?da n (2 * H + j) * el Wh k0 (2 * H + j)
             + ?da n (3 * H + j) * el Wh k0 (3 * H + j) else 0)"
      by (intro sum.cong refl) simp
    also have "\<dots> = (\<Sum>j<H. ?da n0 j * el Wh k0 j + ?da n0 (H + j) * el Wh k0 (H + j)
             + ?da n0 (2 * H + j) * el Wh k0 (2 * H + j)
             + ?da n0 (3 * H + j) * el Wh k0 (3 * H + j))"
      by (rule sum_pick_row[OF idx(1)])
    also have "\<dots> = (\<Sum>m<4 * H. ?da n0 m * el Wh k0 m)"
      by (rule sum_blocks4[symmetric])
    finally show ?thesis .
  qed
  ultimately show ?thesis
    by simp
qed

lemma grad_c:
  assumes sh: "has_shape x N D" "has_shape h N H" "has_shape c N H"
      "has_shape Wx D (4 * H)" "has_shape Wh H (4 * H)" "length b = 4 * H"
    and dsh: "nrows dh = N" "ncols dh = H" "nrows dc = N" "ncols dc = H"
    and fw: "lstm_step_forward x h c Wx Wh b = Some (hn, cn, cache)"
    and idx: "n0 < N" "j0 < H"
  shows "((\<lambda>t. vjp_loss dh dc (lstm_step_forward x h (set_el c n0 j0 t) Wx Wh b))
      has_real_derivative
        el (dc_total dh dc cache) n0 j0 * el (c_forget cache) n0 j0)
      (at (el c n0 j0))"
proof -
  let ?da = "dact_el H dh (dc_total dh dc cache) cache"
  have wf: "wf_mat c" "nrows c = N" "ncols c = H"
    using sh(3) by (simp_all add: has_shape_def)
  have fw': "lstm_step_forward x h (set_el c n0 j0 (el c n0 j0)) Wx Wh b = Some (hn, cn, cache)"
    by (simp add: set_el_same[OF wf(1)] fw)
  have "((\<lambda>t. vjp_loss dh dc (lstm_step_forward x h (set_el c n0 j0 t) Wx Wh b))
      has_real_derivative
        (\<Sum>n<N. \<Sum>j<H.
           ?da n j * 0 + ?da n (H + j) * 0 + ?da n (2 * H + j) * 0 + ?da n (3 * H + j) * 0
           + el (dc_total dh dc cache) n j * el (c_forget cache) n j
             * (if n = n0 \<and> j = j0 then 1 else 0)))
      (at (el c n0 j0))"
    by (rule vjp_loss_deriv[where X = "\<lambda>t. x" and HP = "\<lambda>t. h"
          and CP = "\<lambda>t. set_el c n0 j0 t" and WX = "\<lambda>t. Wx" and WH = "\<lambda>t. Wh"
          and B = "\<lambda>t. b" and a' = "\<lambda>n m. 0" and D = D and hn = hn and cn = cn])
       (simp_all add: sh wf dsh fw' el_deriv_set_el[OF sh(3)])
  moreover have "(\<Sum>n<N. \<Sum>j<H.
           ?da n j * 0 + ?da n (H + j) * 0 + ?da n (2 * H + j) * 0 + ?da n (3 * H + j) * 0
           + el (dc_total dh dc cache) n j * el (c_forget cache) n j
             * (if n = n0 \<and> j = j0 then 1 else 0))
      = el (dc_total dh dc cache) n0 j0 * el (c_forget cache) n0 j0"
  proof -
    have "(\<Sum>n<N. \<Sum>j<H.
           ?da n j * 0 + ?da n (H + j) * 0 + ?da n (2 * H + j) * 0 + ?da n (3 * H + j) * 0
           + el (dc_total dh dc cache) n j * el (c_forget cache) n j
             * (if n = n0 \<and> j = j0 then 1 else 0))
       = (\<Sum>n<N. \<Sum>j<H. if n = n0 then
             (if j = j0 then el (dc_total dh dc cache) n j * el (c_forget cache) n j else 0)
           else 0)"
      by (intro sum.cong refl) simp
    also have "\<dots> = (\<Sum>j<H. if j = j0
        then el (dc_total dh dc cache) n0 j * el (c_forget cache) n0 j else 0)"
      by (rule sum_pick_row[OF idx(1)])
    also have "\<dots> = el (dc_total dh dc cache) n0 j0 * el (c_forget cache) n0 j0"
      using idx(2) by simp
    finally show ?thesis .
  qed
  ultimately show ?thesis
    by simp
qed

lemma sum_pick_col:
  fixes G :: "nat \<Rightarrow> real" and w :: real
  assumes "m0 < 4 * H"
  shows "(\<Sum>j<H. G j * (if j = m0 then w else 0)
             + G (H + j) * (if H + j = m0 then w else 0)
             + G (2 * H + j) * (if 2 * H + j = m0 then w else 0)
             + G (3 * H + j) * (if 3 * H + j = m0 then w else 0)) = G m0 * w"
proof -
  have "(\<Sum>j<H. G j * (if j = m0 then w else 0)
             + G (H + j) * (if H + j = m0 then w else 0)
             + G (2 * H + j) * (if 2 * H + j = m0 then w else 0)
             + G (3 * H + j) * (if 3 * H + j = m0 then w else 0))
      = (\<Sum>m<4 * H. G m * (if m = m0 then w else 0))"
    by (rule sum_blocks4[symmetric])
  also have "\<dots> = (\<Sum>m<4 * H. if m = m0 then G m * w else 0)"
    by (intro sum.cong refl) simp
  also have "\<dots> = G m0 * w"
    using assms by simp
  finally show ?thesis .
qed

lemma grad_Wx:
  assumes sh: "has_shape x N D" "has_shape h N H" "has_shape c N H"
      "has_shape Wx D (4 * H)" "has_shape Wh H (4 * H)" "length b = 4 * H"
    and dsh: "nrows dh = N" "ncols dh = H" "nrows dc = N" "ncols dc = H"
    and fw: "lstm_step_forward x h c Wx Wh b = Some (hn, cn, cache)"
    and idx: "d0 < D" "m0 < 4 * H"
  shows "((\<lambda>t. vjp_loss dh dc (lstm_step_forward x h c (set_el Wx d0 m0 t) Wh b))
      has_real_derivative
        (\<Sum>n<N. el x n d0 * dact_el H dh (dc_total dh dc cache) cache n m0))
      (at (el Wx d0 m0))"
proof -
  let ?da = "dact_el H dh (dc_total dh dc cache) cache"
  have wf: "wf_mat Wx" "nrows Wx = D" "ncols Wx = 4 * H"
    using sh(4) by (simp_all add: has_shape_def)
  have fw': "lstm_step_forward x h c (set_el Wx d0 m0 (el Wx d0 m0)) Wh b = Some (hn, cn, cache)"
    by (simp add: set_el_same[OF wf(1)] fw)
  have "((\<lambda>t. vjp_loss dh dc (lstm_step_forward x h c (set_el Wx d0 m0 t) Wh b))
      has_real_derivative
        (\<Sum>n<N. \<Sum>j<H.
           ?da n j * (if j = m0 then el x n d0 else 0)
           + ?da n (H + j) * (if H + j = m0 then el x n d0 else 0)
           + ?da n (2 * H + j) * (if 2 * H + j = m0 then el x n d0 else 0)
           + ?da n (3 * H + j) * (if 3 * H + j = m0 then el x n d0 else 0)
           + el (dc_total dh dc cache) n j * el (c_forget cache) n j * 0))
      (at (el Wx d0 m0))"
    by (rule vjp_loss_deriv[where X = "\<lambda>t. x" and HP = "\<lambda>t. h"
          and CP = "\<lambda>t. c" and WX = "\<lambda>t. set_el Wx d0 m0 t" and WH = "\<lambda>t. Wh"
          and B = "\<lambda>t. b" and c' = "\<lambda>n j. 0" and D = D and hn = hn and cn = cn])
       (simp_all add: sh wf dsh fw' act_deriv_Wx[OF sh(1) sh(4) sh(6) _ _ idx(1)])
  moreover have "(\<Sum>n<N. \<Sum>j<H.
           ?da n j * (if j = m0 then el x n d0 else 0)
           + ?da n (H + j) * (if H + j = m0 then el x n d0 else 0)
           + ?da n (2 * H + j) * (if 2 * H + j = m0 then el x n d0 else 0)
           + ?da n (3 * H + j) * (if 3 * H + j = m0 then el x n d0 else 0)
           + el (dc_total dh dc cache) n j * el (c_forget cache) n j * 0)
      = (\<Sum>n<N. el x n d0 * ?da n m0)"
  proof (intro sum.cong refl)
    fix n
    show "(\<Sum>j<H.
           ?da n j * (if j = m0 then el x n d0 else 0)
           + ?da n (H + j) * (if H + j = m0 then el x n d0 else 0)
           + ?da n (2 * H + j) * (if 2 * H + j = m0 then el x n d0 else 0)
           + ?da n (3 * H + j) * (if 3 * H + j = m0 then el x n d0 else 0)
           + el (dc_total dh dc cache) n j * el (c_forget cache) n j * 0)
        = el x n d0 * ?da n m0"
      using sum_pick_col[OF idx(2), of "?da n" "el x n d0"] by (simp add: mult.commute)
  qed
  ultimately show ?thesis
    by simp
qed

lemma grad_Wh:
  assumes sh: "has_shape x N D" "has_shape h N H" "has_shape c N H"
      "has_shape Wx D (4 * H)" "has_shape Wh H (4 * H)" "length b = 4 * H"
    and dsh: "nrows dh = N" "ncols dh = H" "nrows dc = N" "ncols dc = H"
    and fw: "lstm_step_forward x h c Wx Wh b = Some (hn, cn, cache)"
    and idx: "k0 < H" "m0 < 4 * H"
  shows "((\<lambda>t. vjp_loss dh dc (lstm_step_forward x h c Wx (set_el Wh k0 m0 t) b))
      has_real_derivative
        (\<Sum>n<N. el h n k0 * dact_el H dh (dc_total dh dc cache) cache n m0))
      (at (el Wh k0 m0))"
proof -
  let ?da = "dact_el H dh (dc_total dh dc cache) cache"
  have wf: "wf_mat Wh" "nrows Wh = H" "ncols Wh = 4 * H"
    using sh(5) by (simp_all add: has_shape_def)
  have fw': "lstm_step_forward x h c Wx (set_el Wh k0 m0 (el Wh k0 m0)) b = Some (hn, cn, cache)"
    by (simp add: set_el_same[OF wf(1)] fw)
  have "((\<lambda>t. vjp_loss dh dc (lstm_step_forward x h c Wx (set_el Wh k0 m0 t) b))
      has_real_derivative
        (\<Sum>n<N. \<Sum>j<H.
           ?da n j * (if j = m0 then el h n k0 else 0)
           + ?da n (H + j) * (if H + j = m0 then el h n k0 else 0)
           + ?da n (2 * H + j) * (if 2 * H + j = m0 then el h n k0 else 0)
           + ?da n (3 * H + j) * (if 3 * H + j = m0 then el h n k0 else 0)
           + el (dc_total dh dc cache) n j * el (c_forget cache) n j * 0))
      (at (el Wh k0 m0))"
    by (rule vjp_loss_deriv[where X = "\<lambda>t. x" and HP = "\<lambda>t. h"
          and CP = "\<lambda>t. c" and WX = "\<lambda>t. Wx" and WH = "\<lambda>t. set_el Wh k0 m0 t"
          and B = "\<lambda>t. b" and c' = "\<lambda>n j. 0" and D = D and hn = hn and cn = cn])
       (simp_all add: sh wf dsh fw' act_deriv_Wh[OF sh(1) sh(2) sh(5) sh(6) _ _ idx(1)])
  moreover have "(\<Sum>n<N. \<Sum>j<H.
           ?da n j * (if j = m0 then el h n k0 else 0)
           + ?da n (H + j) * (if H + j = m0 then el h n k0 else 0)
           + ?da n (2 * H + j) * (if 2 * H + j = m0 then el h n k0 else 0)
           + ?da n (3 * H + j) * (if 3 * H + j = m0 then el h n k0 else 0)
           + el (dc_total dh dc cache) n j * el (c_forget cache) n j * 0)
      = (\<Sum>n<N. el h n k0 * ?da n m0)"
  proof (intro sum.cong refl)
    fix n
    show "(\<Sum>j<H.
           ?da n j * (if j = m0 then el h n k0 else 0)
           + ?da n (H + j) * (if H + j = m0 then el h n k0 else 0)
           + ?da n (2 * H + j) * (if 2 * H + j = m0 then el h n k0 else 0)
           + ?da n (3 * H + j) * (if 3 * H + j = m0 then el h n k0 else 0)
           + el (dc_total dh dc cache) n j * el (c_forget cache) n j * 0)
        = el h n k0 * ?da n m0"
      using sum_pick_col[OF idx(2), of "?da n" "el h n k0"] by (simp add: mult.commute)
  qed
  ultimately show ?thesis
    by simp
qed

lemma grad_b:
  assumes sh: "has_shape x N D" "has_shape h N H" "has_shape c N H"
      "has_shape Wx D (4 * H)" "has_shape Wh H (4 * H)" "length b = 4 * H"
    and dsh: "nrows dh = N" "ncols dh = H" "nrows dc = N" "ncols dc = H"
    and fw: "lstm_step_forward x h c Wx Wh b = Some (hn, cn, cache)"
    and idx: "m0 < 4 * H"
  shows "((\<lambda>t. vjp_loss dh dc (lstm_step_forward x h c Wx Wh (b[m0 := t])))
      has_real_derivative
        (\<Sum>n<N. dact_el H dh (dc_total dh dc cache) cache n m0))
      (at (b ! m0))"
proof -
  let ?da = "dact_el H dh (dc_total dh dc cache) cache"
  have fw': "lstm_step_forward x h c Wx Wh (b[m0 := b ! m0]) = Some (hn, cn, cache)"
    by (simp add: fw)
  have "((\<lambda>t. vjp_loss dh dc (lstm_step_forward x h c Wx Wh (b[m0 := t])))
      has_real_derivative
        (\<Sum>n<N. \<Sum>j<H.
           ?da n j * (if j = m0 then 1 else 0)
           + ?da n (H + j) * (if H + j = m0 then 1 else 0)
           + ?da n (2 * H + j) * (if 2 * H + j = m0 then 1 else 0)
           + ?da n (3 * H + j) * (if 3 * H + j = m0 then 1 else 0)
           + el (dc_total dh dc cache) n j * el (c_forget cache) n j * 0))
      (at (b ! m0))"
    by (rule vjp_loss_deriv[where X = "\<lambda>t. x" and HP = "\<lambda>t. h"
          and CP = "\<lambda>t. c" and WX = "\<lambda>t. Wx" and WH = "\<lambda>t. Wh"
          and B = "\<lambda>t. b[m0 := t]" and c' = "\<lambda>n j. 0" and D = D and hn = hn and cn = cn])
       (simp_all add: sh dsh fw' act_deriv_b[OF sh(1) sh(6) _ _ idx] del: list_update_id)
  moreover have "(\<Sum>n<N. \<Sum>j<H.
           ?da n j * (if j = m0 then 1 else 0)
           + ?da n (H + j) * (if H + j = m0 then 1 else 0)
           + ?da n (2 * H + j) * (if 2 * H + j = m0 then 1 else 0)
           + ?da n (3 * H + j) * (if 3 * H + j = m0 then 1 else 0)
           + el (dc_total dh dc cache) n j * el (c_forget cache) n j * 0)
      = (\<Sum>n<N. ?da n m0)"
  proof (intro sum.cong refl)
    fix n
    show "(\<Sum>j<H.
           ?da n j * (if j = m0 then 1 else 0)
           + ?da n (H + j) * (if H + j = m0 then 1 else 0)
           + ?da n (2 * H + j) * (if 2 * H + j = m0 then 1 else 0)
           + ?da n (3 * H + j) * (if 3 * H + j = m0 then 1 else 0)
           + el (dc_total dh dc cache) n j * el (c_forget cache) n j * 0)
        = ?da n m0"
      using sum_pick_col[OF idx, of "?da n" 1] by simp
  qed
  ultimately show ?thesis
    by simp
qed

lemma wf_cache_forward:
  assumes "has_shape x N D" "has_shape h N H" "has_shape c N H"
      "has_shape Wx D (4 * H)" "has_shape Wh H (4 * H)" "length b = 4 * H"
    and "lstm_step_forward x h c Wx Wh b = Some (hn, cn, cache)"
  shows "wf_cache N D H cache \<and> has_shape hn N H \<and> has_shape cn N H"
proof -
  have sh: "nrows x = N" "ncols h = H"
    using assms(1,2) by (simp_all add: has_shape_def)
  show ?thesis
    using assms(7) assms(1-6) unfolding lstm_step_forward_eq[OF assms(1-6)]
    by (auto simp: wf_cache_def spec_h_next_def spec_c_next_def spec_activation_def
        map_mat_def spec_block_def Let_def sh)
qed

lemma lstm_step_backward_eq:
  assumes "nrows dnext_h = N" "ncols dnext_h = H" "nrows dnext_c = N" "ncols dnext_c = H"
    "wf_cache N D H cache"
  shows "lstm_step_backward dnext_h dnext_c cache =
    (let dc = dc_total dnext_h dnext_c cache;
         da = mk_mat N (4 * H) (dact_el H dnext_h dc cache) in
     Some (dc,
       mk_mat N D (\<lambda>n d. \<Sum>m<4 * H. el da n m * el (c_Wx cache) d m),
       mk_mat N H (\<lambda>n k. \<Sum>m<4 * H. el da n m * el (c_Wh cache) k m),
       mk_mat N H (\<lambda>n j. el dc n j * el (c_forget cache) n j),
       mk_mat D (4 * H) (\<lambda>d m. \<Sum>n<N. el (c_x cache) n d * el da n m),
       mk_mat H (4 * H) (\<lambda>k m. \<Sum>n<N. el (c_prev_h cache) n k * el da n m),
       mk_vec (4 * H) (\<lambda>m. \<Sum>n<N. el da n m)))"
proof -
  have dsh: "nrows (dc_total dnext_h dnext_c cache) = N"
    "ncols (dc_total dnext_h dnext_c cache) = H"
    using assms(3,4) by (simp_all add: dc_total_def)
  show ?thesis
    unfolding lstm_step_backward_def dnext_c_update_eq[OF assms]
    by (simp add: lstm_step_backward_rest_eq[OF assms(1,2) dsh assms(5)] Let_def)
qed

text \<open>
  Claim C1. For inputs of agreeing shapes and upstream gradients \<open>dh\<close>, \<open>dc\<close> of the
  shape of the state, \<open>lstm_step_forward\<close> returns a cache, \<open>lstm_step_backward\<close> on
  that cache returns, and each entry of \<open>dx\<close>, \<open>dprev_h\<close>, \<open>dprev_c\<close>, \<open>dWx\<close>, \<open>dWh\<close> and
  \<open>db\<close> is the partial derivative, at the cached inputs, of
  \<open>\<Sum> dh \<odot> h_next + \<Sum> dc \<odot> c_next\<close> with respect to the matching entry of \<open>x\<close>,
  \<open>h_prev\<close>, \<open>c_prev\<close>, \<open>Wx\<close>, \<open>Wh\<close> and \<open>b\<close>: the reverse-mode gradient of the forward
  step, exactly, over the real numbers.
\<close>

theorem lstm_step_backward_gradient:
  assumes sh: "has_shape x N D" "has_shape h N H" "has_shape c N H"
      "has_shape Wx D (4 * H)" "has_shape Wh H (4 * H)" "length b = 4 * H"
    and dsh: "has_shape dh N H" "has_shape dc N H"
  shows "\<exists>hn cn cache dc' dx dprev_h dprev_c dWx dWh db.
     lstm_step_forward x h c Wx Wh b = Some (hn, cn, cache) \<and>
     lstm_step_backward dh dc cache = Some (dc', dx, dprev_h, dprev_c, dWx, dWh, db) \<and>
     has_shape dx N D \<and> has_shape dprev_h N H \<and> has_shape dprev_c N H \<and>
     has_shape dWx D (4 * H) \<and> has_shape dWh H (4 * H) \<and> length db = 4 * H \<and>
     (\<forall>n<N. \<forall>d<D.
        ((\<lambda>t. vjp_loss dh dc (lstm_step_forward (set_el x n d t) h c Wx Wh b))
           has_real_derivative el dx n d) (at (el x n d))) \<and>
     (\<forall>n<N. \<forall>k<H.
        ((\<lambda>t. vjp_loss dh dc (lstm_step_forward x (set_el h n k t) c Wx Wh b))
           has_real_derivative el dprev_h n k) (at (el h n k))) \<and>
     (\<forall>n<N. \<forall>j<H.
        ((\<lambda>t. vjp_loss dh dc (lstm_step_forward x h (set_el c n j t) Wx Wh b))
           has_real_derivative el dprev_c n j) (at (el c n j))) \<and>
     (\<forall>d<D. \<forall>m<4 * H.
        ((\<lambda>t. vjp_loss dh dc (lstm_step_forward x h c (set_el Wx d m t) Wh b))
           has_real_derivative el dWx d m) (at (el Wx d m))) \<and>
     (\<forall>k<H. \<forall>m<4 * H.
        ((\<lambda>t. vjp_loss dh dc (lstm_step_forward x h c Wx (set_el Wh k m t) b))
           has_real_derivative el dWh k m) (at (el Wh k m))) \<and>
     (\<forall>m<4 * H.
        ((\<lambda>t. vjp_loss dh dc (lstm_step_forward x h c Wx Wh (b[m := t])))
           has_real_derivative db ! m) (at (b ! m)))"
proof -
  obtain hn cn cache where fw: "lstm_step_forward x h c Wx Wh b = Some (hn, cn, cache)"
    using lstm_step_forward_eq[OF sh] by blast
  have wfc: "wf_cache N D H cache"
    using wf_cache_forward[OF sh fw] by simp
  have d: "nrows dh = N" "ncols dh = H" "nrows dc = N" "ncols dc = H"
    using dsh by (simp_all add: has_shape_def)
  have cp: "c_Wx cache = Wx" "c_Wh cache = Wh" "c_x cache = x" "c_prev_h cache = h"
    using fw unfolding lstm_step_forward_eq[OF sh] by auto
  let ?dct = "dc_total dh dc cache"
  let ?da = "mk_mat N (4 * H) (dact_el H dh ?dct cache)"
  let ?dx = "mk_mat N D (\<lambda>n d. \<Sum>m<4 * H. el ?da n m * el Wx d m)"
  let ?dph = "mk_mat N H (\<lambda>n k. \<Sum>m<4 * H. el ?da n m * el Wh k m)"
  let ?dpc = "mk_mat N H (\<lambda>n j. el ?dct n j * el (c_forget cache) n j)"
  let ?dWx = "mk_mat D (4 * H) (\<lambda>d m. \<Sum>n<N. el x n d * el ?da n m)"
  let ?dWh = "mk_mat H (4 * H) (\<lambda>k m. \<Sum>n<N. el h n k * el ?da n m)"
  let ?db = "mk_vec (4 * H) (\<lambda>m. \<Sum>n<N. el ?da n m)"
  have bw: "lstm_step_backward dh dc cache = Some (?dct, ?dx, ?dph, ?dpc, ?dWx, ?dWh, ?db)"
    unfolding lstm_step_backward_eq[OF d wfc] by (simp add: Let_def cp)
  have gx: "\<forall>n<N. \<forall>d<D.
        ((\<lambda>t. vjp_loss dh dc (lstm_step_forward (set_el x n d t) h c Wx Wh b))
           has_real_derivative el ?dx n d) (at (el x n d))"
    using grad_x[OF sh d fw] by simp
  have gh: "\<forall>n<N. \<forall>k<H.
        ((\<lambda>t. vjp_loss dh dc (lstm_step_forward x (set_el h n k t) c Wx Wh b))
           has_real_derivative el ?dph n k) (at (el h n k))"
    using grad_h[OF sh d fw] by simp
  have gc: "\<forall>n<N. \<forall>j<H.
        ((\<lambda>t. vjp_loss dh dc (lstm_step_forward x h (set_el c n j t) Wx Wh b))
           has_real_derivative el ?dpc n j) (at (el c n j))"
    using grad_c[OF sh d fw] by simp
  have gWx: "\<forall>d<D. \<forall>m<4 * H.
        ((\<lambda>t. vjp_loss dh dc (lstm_step_forward x h c (set_el Wx d m t) Wh b))
           has_real_derivative el ?dWx d m) (at (el Wx d m))"
    using grad_Wx[OF sh d fw] by simp
  have gWh: "\<forall>k<H. \<forall>m<4 * H.
        ((\<lambda>t. vjp_loss dh dc (lstm_step_forward x h c Wx (set_el Wh k m t) b))
           has_real_derivative el ?dWh k m) (at (el Wh k m))"
    using grad_Wh[OF sh d fw] by simp
  have gb: "\<forall>m<4 * H.
        ((\<lambda>t. vjp_loss dh dc (lstm_step_forward x h c Wx Wh (b[m := t])))
           has_real_derivative ?db ! m) (at (b ! m))"
    using grad_b[OF sh d fw] by (simp add: mk_vec_def)
  have shp: "has_shape ?dx N D" "has_shape ?dph N H" "has_shape ?dpc N H"
    "has_shape ?dWx D (4 * H)" "has_shape ?dWh H (4 * H)" "length ?db = 4 * H"
    by (simp_all add: mk_vec_def)
  show ?thesis
    using fw bw shp gx gh gc gWx gWh gb by blast
qed

theorem lstm_step_backward_gradient_witness:
  "((\<lambda>t. vjp_loss ex_one ex_zero
           (lstm_step_forward ex_zero ex_zero (set_el ex_two 0 0 t) ex_W ex_W ex_b))
      has_real_derivative (1 - (tanh 1)\<^sup>2) / 4) (at 2)"
proof -
  have sh: "has_shape ex_zero 1 1" "has_shape ex_two 1 1" "has_shape ex_W 1 (4 * 1)"
    "length ex_b = 4 * 1" "has_shape ex_one 1 1"
    by (simp_all add: ex_defs has_shape_def wf_mat_def)
  from lstm_step_backward_gradient[OF sh(1) sh(1) sh(2) sh(3) sh(3) sh(4) sh(5) sh(1)]
  obtain hn cn cache dc' dx dprev_h dprev_c dWx dWh db where
    fw: "lstm_step_forward ex_zero ex_zero ex_two ex_W ex_W ex_b = Some (hn, cn, cache)" and
    bw: "lstm_step_backward ex_one ex_zero cache = Some (dc', dx, dprev_h, dprev_c, dWx, dWh, db)"
    and gc: "\<forall>n<1. \<forall>j<1.
        ((\<lambda>t. vjp_loss ex_one ex_zero
                (lstm_step_forward ex_zero ex_zero (set_el ex_two n j t) ex_W ex_W ex_b))
           has_real_derivative el dprev_c n j) (at (el ex_two n j))"
    by (elim exE conjE) (rule that; assumption)
  have wfc: "wf_cache 1 1 1 cache"
    using wf_cache_forward[OF sh(1) sh(1) sh(2) sh(3) sh(3) sh(4) fw] by simp
  have d: "nrows ex_one = 1" "ncols ex_one = 1" "nrows ex_zero = 1" "ncols ex_zero = 1"
    by (simp_all add: ex_defs)
  have a: "spec_activation ex_zero ex_zero ex_W ex_W ex_b = ex_W"
    by (simp add: spec_activation_def ex_defs eval_simps)
  have cn: "spec_c_next ex_zero ex_zero ex_two ex_W ex_W ex_b =
      \<lparr>nrows = 1, ncols = 1, rows = [[1]]\<rparr>"
    by (simp add: spec_c_next_def spec_activation_def spec_block_def
        map_mat_def logistic_def ex_defs eval_simps)
  have f: "map_mat logistic (spec_block 1 1 ex_W) = \<lparr>nrows = 1, ncols = 1, rows = [[1 / 2]]\<rparr>"
    "map_mat logistic (spec_block 2 1 ex_W) = \<lparr>nrows = 1, ncols = 1, rows = [[1 / 2]]\<rparr>"
    by (simp_all add: spec_block_def map_mat_def logistic_def ex_defs eval_simps)
  have cache: "c_forget cache = \<lparr>nrows = 1, ncols = 1, rows = [[1 / 2]]\<rparr>"
    "c_output cache = \<lparr>nrows = 1, ncols = 1, rows = [[1 / 2]]\<rparr>"
    "c_next_c cache = \<lparr>nrows = 1, ncols = 1, rows = [[1]]\<rparr>"
    using fw unfolding lstm_step_forward_eq[OF sh(1) sh(1) sh(2) sh(3) sh(3) sh(4)] a cn
    by (auto simp: f[unfolded One_nat_def])
  have cv: "el (c_forget cache) 0 0 = 1 / 2" "el (c_output cache) 0 0 = 1 / 2"
    "el (c_next_c cache) 0 0 = 1"
    by (simp_all add: cache el_def)
  have "dprev_c = mk_mat 1 1 (\<lambda>n j. el (dc_total ex_one ex_zero cache) n j
                                    * el (c_forget cache) n j)"
    using bw unfolding lstm_step_backward_eq[OF d wfc] by (auto simp: Let_def)
  then have "el dprev_c 0 0 = el (dc_total ex_one ex_zero cache) 0 0 * el (c_forget cache) 0 0"
    by simp
  also have "\<dots> = (el ex_zero 0 0 + el ex_one 0 0 * (1 / 2) * (1 - (tanh 1)\<^sup>2)) * (1 / 2)"
    by (simp add: dc_total_def d cv)
  also have "\<dots> = (1 - (tanh 1)\<^sup>2) / 4"
    by (simp add: ex_defs el_def)
  finally have v: "el dprev_c 0 0 = (1 - (tanh 1)\<^sup>2) / 4" .
  have two: "el ex_two 0 0 = 2"
    by (simp add: ex_defs el_def)
  have "((\<lambda>t. vjp_loss ex_one ex_zero
           (lstm_step_forward ex_zero ex_zero (set_el ex_two 0 0 t) ex_W ex_W ex_b))
      has_real_derivative el dprev_c 0 0) (at (el ex_two 0 0))"
    using gc by simp
  then show ?thesis
    unfolding v two .
qed

section \<open>The layout of the gates\<close>

lemma lstm_step_dactivation_eq:
  assumes "nrows dnext_h = N" "ncols dnext_h = H" "nrows dnext_c = N" "ncols dnext_c = H"
    "wf_cache N D H cache"
  shows "lstm_step_dactivation dnext_h dnext_c cache =
     Some (mk_mat N (4 * H) (dact_el H dnext_h (dc_total dnext_h dnext_c cache) cache))"
proof -
  have dsh: "nrows (dc_total dnext_h dnext_c cache) = N"
    "ncols (dc_total dnext_h dnext_c cache) = H"
    using assms(3,4) by (simp_all add: dc_total_def)
  show ?thesis
    unfolding lstm_step_dactivation_def dnext_c_update_eq[OF assms]
    by (simp add: lstm_step_backward_rest_eq[OF assms(1,2) dsh assms(5)] Let_def)
qed

lemma forward_gates_slices:
  assumes "has_shape x N D" "has_shape h N H" "has_shape c N H"
      "has_shape Wx D (4 * H)" "has_shape Wh H (4 * H)" "length b = 4 * H"
    and fw: "lstm_step_forward x h c Wx Wh b = Some (hn, cn, cache)"
  shows "c_input cache = sigmoid (slice_cols 0 H (c_activation cache))"
    "c_forget cache = sigmoid (slice_cols H (2 * H) (c_activation cache))"
    "c_output cache = sigmoid (slice_cols (2 * H) (3 * H) (c_activation cache))"
    "c_block_input cache = map_mat tanh (slice_cols (3 * H) (4 * H) (c_activation cache))"
proof -
  let ?a = "spec_activation x h Wx Wh b"
  have a: "nrows ?a = N" "ncols ?a = 4 * H"
    using assms(1,6) by (simp_all add: spec_activation_def has_shape_def)
  have b: "slice_cols 0 H ?a = spec_block 0 H ?a"
    "slice_cols H (2 * H) ?a = spec_block 1 H ?a"
    "slice_cols (2 * H) (3 * H) ?a = spec_block 2 H ?a"
    "slice_cols (3 * H) (4 * H) ?a = spec_block 3 H ?a"
    using a by (simp_all add: slice_cols_eq spec_block_def)
  have c: "c_activation cache = ?a"
    "c_input cache = map_mat logistic (spec_block 0 H ?a)"
    "c_forget cache = map_mat logistic (spec_block 1 H ?a)"
    "c_output cache = map_mat logistic (spec_block 2 H ?a)"
    "c_block_input cache = map_mat tanh (spec_block 3 H ?a)"
    using fw unfolding lstm_step_forward_eq[OF assms(1-6)] by auto
  show "c_input cache = sigmoid (slice_cols 0 H (c_activation cache))"
    "c_forget cache = sigmoid (slice_cols H (2 * H) (c_activation cache))"
    "c_output cache = sigmoid (slice_cols (2 * H) (3 * H) (c_activation cache))"
    "c_block_input cache = map_mat tanh (slice_cols (3 * H) (4 * H) (c_activation cache))"
    by (simp_all add: c b sigmoid_map_logistic)
qed

lemma lstm_step_backward_rest_products:
  assumes "lstm_step_backward_rest dnext_h dnext_c cache =
             Some (da, dx, dprev_h, dprev_c, dWx, dWh, db)"
  shows "dot da (transpose_m (c_Wx cache)) = Some dx"
    "dot (transpose_m (c_x cache)) da = Some dWx"
    "dot (transpose_m (c_prev_h cache)) da = Some dWh"
    "dot da (transpose_m (c_Wh cache)) = Some dprev_h"
    "db = sum_axis0 da"
    "mul_m dnext_c (c_forget cache) = Some dprev_c"
  using assms
  by (auto simp: lstm_step_backward_rest_def Let_def bind_eq_Some_conv)

lemma lstm_step_backward_dactivation:
  "lstm_step_backward dnext_h dnext_c cache = Some (dc', dx, dprev_h, dprev_c, dWx, dWh, db) \<longleftrightarrow>
   (\<exists>da. dnext_c_update dnext_h dnext_c cache = Some dc' \<and>
      lstm_step_backward_rest dnext_h dc' cache = Some (da, dx, dprev_h, dprev_c, dWx, dWh, db))"
  by (auto simp: lstm_step_backward_def bind_eq_Some_conv)

text \<open>
  Claim C8. Forward and backward agree on the layout of the activation. The forward step
  reads the input gate from columns \<open>[0, H)\<close>, the forget gate from \<open>[H, 2H)\<close>, the
  output gate from \<open>[2H, 3H)\<close> and the block input from \<open>[3H, 4H)\<close>; the backward step
  leaves in the same columns of \<open>dactivation\<close> the gradient of that gate's
  pre-activation: \<open>d_gate \<odot> gate \<odot> (1 - gate)\<close> for the three sigmoid gates and
  \<open>d_g \<odot> (1 - g\<^sup>2)\<close> for the block input. That array \<open>da\<close> is the one
  \<open>lstm_step_backward\<close> computes its results from: the call returns, and what it returns
  is \<open>dx = da \<cdot> Wx\<^sup>T\<close>, \<open>dWx = x\<^sup>T \<cdot> da\<close>, \<open>dWh = h\<^sup>T \<cdot> da\<close>, \<open>dprev_h = da \<cdot> Wh\<^sup>T\<close> and
  \<open>db\<close>, the sum of \<open>da\<close> over its rows.
\<close>

theorem gate_block_layout:
  assumes sh: "has_shape x N D" "has_shape h N H" "has_shape c N H"
      "has_shape Wx D (4 * H)" "has_shape Wh H (4 * H)" "length b = 4 * H"
    and dsh: "has_shape dh N H" "has_shape dc N H"
  shows "\<exists>hn cn cache da dc' dx dprev_h dprev_c dWx dWh db.
     lstm_step_forward x h c Wx Wh b = Some (hn, cn, cache) \<and>
     lstm_step_dactivation dh dc cache = Some da \<and>
     lstm_step_backward dh dc cache = Some (dc', dx, dprev_h, dprev_c, dWx, dWh, db) \<and>
     dc' = dc_total dh dc cache \<and>
     dot da (transpose_m Wx) = Some dx \<and>
     dot (transpose_m x) da = Some dWx \<and>
     dot (transpose_m h) da = Some dWh \<and>
     dot da (transpose_m Wh) = Some dprev_h \<and>
     db = sum_axis0 da \<and>
     has_shape (c_activation cache) N (4 * H) \<and> has_shape da N (4 * H) \<and>
     c_input cache = sigmoid (slice_cols 0 H (c_activation cache)) \<and>
     c_forget cache = sigmoid (slice_cols H (2 * H) (c_activation cache)) \<and>
     c_output cache = sigmoid (slice_cols (2 * H) (3 * H) (c_activation cache)) \<and>
     c_block_input cache = map_mat tanh (slice_cols (3 * H) (4 * H) (c_activation cache)) \<and>
     slice_cols 0 H da =
       mk_mat N H (\<lambda>n j. el (dc_total dh dc cache) n j * el (c_block_input cache) n j
                          * el (c_input cache) n j * (1 - el (c_input cache) n j)) \<and>
     slice_cols H (2 * H) da =
       mk_mat N H (\<lambda>n j. el (dc_total dh dc cache) n j * el (c_prev_c cache) n j
                          * el (c_forget cache) n j * (1 - el (c_forget cache) n j)) \<and>
     slice_cols (2 * H) (3 * H) da =
       mk_mat N H (\<lambda>n j. el dh n j * tanh (el (c_next_c cache) n j)
                          * el (c_output cache) n j * (1 - el (c_output cache) n j)) \<and>
     slice_cols (3 * H) (4 * H) da =
       mk_mat N H (\<lambda>n j. el (dc_total dh dc cache) n j * el (c_input cache) n j
                          * (1 - (el (c_block_input cache) n j)\<^sup>2))"
proof -
  obtain hn cn cache where fw: "lstm_step_forward x h c Wx Wh b = Some (hn, cn, cache)"
    using lstm_step_forward_eq[OF sh] by blast
  have wfc: "wf_cache N D H cache"
    using wf_cache_forward[OF sh fw] by simp
  have cf: "c_x cache = x" "c_prev_h cache = h" "c_Wx cache = Wx" "c_Wh cache = Wh"
    using fw unfolding lstm_step_forward_eq[OF sh] by auto
  have d: "nrows dh = N" "ncols dh = H" "nrows dc = N" "ncols dc = H"
    using dsh by (simp_all add: has_shape_def)
  let ?da = "mk_mat N (4 * H) (dact_el H dh (dc_total dh dc cache) cache)"
  have bw: "lstm_step_dactivation dh dc cache = Some ?da"
    by (rule lstm_step_dactivation_eq[OF d wfc])
  obtain dx dprev_h dprev_c dWx dWh db where
    sb: "lstm_step_backward dh dc cache =
           Some (dc_total dh dc cache, dx, dprev_h, dprev_c, dWx, dWh, db)"
    unfolding lstm_step_backward_eq[OF d wfc] Let_def by blast
  then obtain da where
    u: "dnext_c_update dh dc cache = Some (dc_total dh dc cache)" and
    r: "lstm_step_backward_rest dh (dc_total dh dc cache) cache =
          Some (da, dx, dprev_h, dprev_c, dWx, dWh, db)"
    unfolding lstm_step_backward_dactivation by blast
  have da: "da = ?da"
    using bw by (simp add: lstm_step_dactivation_def u r)
  note p = lstm_step_backward_rest_products[OF r, unfolded cf da]
  have s0: "slice_cols 0 H ?da =
       mk_mat N H (\<lambda>n j. el (dc_total dh dc cache) n j * el (c_block_input cache) n j
                          * el (c_input cache) n j * (1 - el (c_input cache) n j))"
    by (simp add: slice_cols_eq dact_el_def cong: mk_mat_congs)
  have s1: "slice_cols H (2 * H) ?da =
       mk_mat N H (\<lambda>n j. el (dc_total dh dc cache) n j * el (c_prev_c cache) n j
                          * el (c_forget cache) n j * (1 - el (c_forget cache) n j))"
    by (simp add: slice_cols_eq dact_el_def cong: mk_mat_congs)
  have s2: "slice_cols (2 * H) (3 * H) ?da =
       mk_mat N H (\<lambda>n j. el dh n j * tanh (el (c_next_c cache) n j)
                          * el (c_output cache) n j * (1 - el (c_output cache) n j))"
    by (simp add: slice_cols_eq dact_el_def cong: mk_mat_congs)
  have s3: "slice_cols (3 * H) (4 * H) ?da =
       mk_mat N H (\<lambda>n j. el (dc_total dh dc cache) n j * el (c_input cache) n j
                          * (1 - (el (c_block_input cache) n j)\<^sup>2))"
    by (simp add: slice_cols_eq dact_el_def cong: mk_mat_congs)
  have act: "has_shape (c_activation cache) N (4 * H)"
    using wfc by (simp add: wf_cache_def)
  have shd: "has_shape ?da N (4 * H)"
    by simp
  show ?thesis
    apply (rule exI[of _ hn], rule exI[of _ cn], rule exI[of _ cache], rule exI[of _ ?da])
    apply (rule exI[of _ "dc_total dh dc cache"], rule exI[of _ dx], rule exI[of _ dprev_h])
    apply (rule exI[of _ dprev_c], rule exI[of _ dWx], rule exI[of _ dWh], rule exI[of _ db])
    apply (intro conjI fw bw sb refl p(1-5) act shd forward_gates_slices[OF sh fw] s0 s1 s2 s3)
    done
qed

lemma ex_shapes:
  "has_shape ex_zero 1 1" "has_shape ex_one 1 1" "has_shape ex_two 1 1"
  "has_shape ex_half 1 1" "has_shape ex_W 1 (4 * 1)" "length ex_b = 4 * 1"
  by (simp_all add: ex_defs has_shape_def wf_mat_def)

lemma ex_forward:
  "lstm_step_forward ex_zero ex_zero ex_two ex_W ex_W ex_b = Some (ex_h1, ex_one, ex_cache)"
proof -
  have a: "spec_activation ex_zero ex_zero ex_W ex_W ex_b = ex_W"
    by (simp add: spec_activation_def ex_defs eval_simps)
  have c: "spec_c_next ex_zero ex_zero ex_two ex_W ex_W ex_b = ex_one"
    by (simp add: spec_c_next_def spec_activation_def spec_block_def
        map_mat_def logistic_def ex_defs eval_simps)
  have h: "spec_h_next ex_zero ex_zero ex_two ex_W ex_W ex_b = ex_h1"
    by (simp add: spec_h_next_def spec_c_next_def spec_activation_def spec_block_def
        map_mat_def logistic_def ex_defs eval_simps)
  have g: "map_mat logistic (spec_block 0 1 ex_W) = ex_half"
    "map_mat logistic (spec_block 1 1 ex_W) = ex_half"
    "map_mat logistic (spec_block 2 1 ex_W) = ex_half"
    "map_mat tanh (spec_block 3 1 ex_W) = ex_zero"
    by (simp_all add: spec_block_def map_mat_def logistic_def ex_defs eval_simps)
  show ?thesis
    unfolding lstm_step_forward_eq[OF ex_shapes(1) ex_shapes(1) ex_shapes(3) ex_shapes(5)
        ex_shapes(5) ex_shapes(6)] a c h g ex_cache_def ..
qed

lemma ex_cache_wf: "wf_cache 1 1 1 ex_cache"
  using wf_cache_forward[OF ex_shapes(1) ex_shapes(1) ex_shapes(3) ex_shapes(5)
        ex_shapes(5) ex_shapes(6) ex_forward] by simp

lemma ex_dc_total: "dc_total ex_one ex_zero ex_cache =
    \<lparr>nrows = 1, ncols = 1, rows = [[(1 - (tanh 1)\<^sup>2) / 2]]\<rparr>"
  by (simp add: dc_total_def ex_cache_def ex_defs eval_simps)

lemma el_slice_cols:
  "hi \<le> ncols a \<Longrightarrow> lo \<le> hi \<Longrightarrow> n < nrows a \<Longrightarrow> j < hi - lo \<Longrightarrow>
   el (slice_cols lo hi a) n j = el a n (lo + j)"
  by (simp add: slice_cols_eq)

lemma ex_b4_len: "length ex_b4 = 4 * 1"
  by (simp add: ex_b4_def)

lemma logistic_inj: "logistic a = logistic b \<longleftrightarrow> a = b"
proof -
  have p: "1 + exp (- a) > 0" "1 + exp (- b) > 0"
    by (simp_all add: add_pos_pos)
  have "logistic a = logistic b \<longleftrightarrow> 1 + exp (- a) = 1 + exp (- b)"
    unfolding logistic_def using p by (metis inverse_eq_divide inverse_eq_iff_eq)
  then show ?thesis
    by simp
qed

lemma ex_gates_distinct: "distinct [logistic 0, logistic 1, logistic (- 1)]"
  by (simp add: logistic_inj)

theorem gate_block_layout_witness:
  "\<exists>hn cn cache dc' dx dprev_h dprev_c dWx dWh db.
     lstm_step_forward ex_one ex_zero ex_two ex_W ex_W ex_b4 = Some (hn, cn, cache) \<and>
     lstm_step_backward ex_one ex_zero cache = Some (dc', dx, dprev_h, dprev_c, dWx, dWh, db) \<and>
     c_activation cache = \<lparr>nrows = 1, ncols = 4, rows = [ex_b4]\<rparr> \<and>
     c_input cache = \<lparr>nrows = 1, ncols = 1, rows = [[logistic 0]]\<rparr> \<and>
     c_forget cache = \<lparr>nrows = 1, ncols = 1, rows = [[logistic 1]]\<rparr> \<and>
     c_output cache = \<lparr>nrows = 1, ncols = 1, rows = [[logistic (- 1)]]\<rparr> \<and>
     c_block_input cache = \<lparr>nrows = 1, ncols = 1, rows = [[tanh 2]]\<rparr> \<and>
     db = ex_da \<and> dWx = \<lparr>nrows = 1, ncols = 4, rows = [ex_da]\<rparr> \<and>
     distinct [logistic 0, logistic 1, logistic (- 1)]"
proof -
  note sh = ex_shapes(2) ex_shapes(1) ex_shapes(3) ex_shapes(5) ex_shapes(5) ex_b4_len
  from gate_block_layout[OF sh ex_shapes(2) ex_shapes(1)]
  obtain hn cn cache da dc' dx dprev_h dprev_c dWx dWh db where
    fw: "lstm_step_forward ex_one ex_zero ex_two ex_W ex_W ex_b4 = Some (hn, cn, cache)" and
    bw: "lstm_step_backward ex_one ex_zero cache = Some (dc', dx, dprev_h, dprev_c, dWx, dWh, db)" and
    pWx: "dot (transpose_m ex_one) da = Some dWx" and
    pb: "db = sum_axis0 da" and
    shd: "has_shape da 1 (4 * 1)" and
    gi: "c_input cache = sigmoid (slice_cols 0 1 (c_activation cache))" and
    gf: "c_forget cache = sigmoid (slice_cols 1 (2 * 1) (c_activation cache))" and
    go: "c_output cache = sigmoid (slice_cols (2 * 1) (3 * 1) (c_activation cache))" and
    gg: "c_block_input cache = map_mat tanh (slice_cols (3 * 1) (4 * 1) (c_activation cache))" and
    s0: "slice_cols 0 1 da =
       mk_mat 1 1 (\<lambda>n j. el (dc_total ex_one ex_zero cache) n j * el (c_block_input cache) n j
                          * el (c_input cache) n j * (1 - el (c_input cache) n j))" and
    s1: "slice_cols 1 (2 * 1) da =
       mk_mat 1 1 (\<lambda>n j. el (dc_total ex_one ex_zero cache) n j * el (c_prev_c cache) n j
                          * el (c_forget cache) n j * (1 - el (c_forget cache) n j))" and
    s2: "slice_cols (2 * 1) (3 * 1) da =
       mk_mat 1 1 (\<lambda>n j. el ex_one n j * tanh (el (c_next_c cache) n j)
                          * el (c_output cache) n j * (1 - el (c_output cache) n j))" and
    s3: "slice_cols (3 * 1) (4 * 1) da =
       mk_mat 1 1 (\<lambda>n j. el (dc_total ex_one ex_zero cache) n j * el (c_input cache) n j
                          * (1 - (el (c_block_input cache) n j)\<^sup>2))"
    by (elim exE conjE) (rule that; assumption)
  have cf: "c_activation cache = spec_activation ex_one ex_zero ex_W ex_W ex_b4"
    "c_prev_c cache = ex_two"
    "c_next_c cache = spec_c_next ex_one ex_zero ex_two ex_W ex_W ex_b4"
    using fw unfolding lstm_step_forward_eq[OF sh] by auto
  have a: "c_activation cache = \<lparr>nrows = 1, ncols = 4, rows = [ex_b4]\<rparr>"
    unfolding cf by (simp add: spec_activation_def ex_defs ex_b4_def eval_simps)
  have i: "c_input cache = \<lparr>nrows = 1, ncols = 1, rows = [[logistic 0]]\<rparr>"
    unfolding gi a
    by (simp add: sigmoid_map_logistic map_mat_def slice_cols_def slice_start_def
        slice_width_def ex_b4_def eval_simps)
  have f: "c_forget cache = \<lparr>nrows = 1, ncols = 1, rows = [[logistic 1]]\<rparr>"
    unfolding gf a
    by (simp add: sigmoid_map_logistic map_mat_def slice_cols_def slice_start_def
        slice_width_def ex_b4_def eval_simps)
  have o: "c_output cache = \<lparr>nrows = 1, ncols = 1, rows = [[logistic (- 1)]]\<rparr>"
    unfolding go a
    by (simp add: sigmoid_map_logistic map_mat_def slice_cols_def slice_start_def
        slice_width_def ex_b4_def eval_simps)
  have g: "c_block_input cache = \<lparr>nrows = 1, ncols = 1, rows = [[tanh 2]]\<rparr>"
    unfolding gg a
    by (simp add: map_mat_def slice_cols_def slice_start_def
        slice_width_def ex_b4_def eval_simps)
  have q: "c_next_c cache = \<lparr>nrows = 1, ncols = 1, rows = [[ex_q]]\<rparr>"
    unfolding cf
    by (simp add: spec_c_next_def spec_activation_def spec_block_def map_mat_def ex_defs
        ex_b4_def ex_q_def eval_simps)
  have k: "dc_total ex_one ex_zero cache = \<lparr>nrows = 1, ncols = 1, rows = [[ex_k]]\<rparr>"
    by (simp add: dc_total_def o q ex_defs ex_k_def eval_simps)
  have d: "nrows da = 1" "ncols da = 4"
    using shd by (simp_all add: has_shape_def)
  have e0: "el da 0 0 = ex_da ! 0"
    using el_slice_cols[of 1 da 0 0 0] d s0
    by (simp add: k g i ex_da_def eval_simps)
  have e1: "el da 0 1 = ex_da ! 1"
    using el_slice_cols[of 2 da 1 0 0] d s1
    by (simp add: k f cf(2) ex_two_def ex_da_def eval_simps)
  have e2: "el da 0 2 = ex_da ! 2"
    using el_slice_cols[of 3 da 2 0 0] d s2
    by (simp add: q o ex_one_def ex_da_def eval_simps)
  have e3: "el da 0 3 = ex_da ! 3"
    using el_slice_cols[of 4 da 3 0 0] d s3
    by (simp add: k g i ex_da_def eval_simps)
  have len: "ex_da = [ex_da ! 0, ex_da ! 1, ex_da ! 2, ex_da ! 3]"
    by (simp add: ex_da_def)
  have db: "db = ex_da"
    unfolding pb
    apply (subst len)
    using e0 e1 e2 e3
    apply (simp add: sum_axis0_def d mk_vec_def eval_nat_numeral lessThan_Suc)
    done
  have t: "el (transpose_m ex_one) 0 0 = 1" "nrows (transpose_m ex_one) = 1"
    "ncols (transpose_m ex_one) = 1"
    by (simp_all add: transpose_m_def ex_one_def eval_simps)
  have dWx: "dWx = \<lparr>nrows = 1, ncols = 4, rows = [ex_da]\<rparr>"
    using pWx e0 e1 e2 e3
    apply (subst len)
    apply (simp add: dot_def d t mk_mat_def eval_nat_numeral lessThan_Suc)
    done
  show ?thesis
    using fw bw a i f o g db dWx ex_gates_distinct by blast
qed

section \<open>The forward pass over a sequence\<close>

lemma dim0_mk_ten [simp]: "dim0 (mk_ten n t d f) = n"
  by (simp add: mk_ten_def)

lemma dim1_mk_ten [simp]: "dim1 (mk_ten n t d f) = t"
  by (simp add: mk_ten_def)

lemma dim2_mk_ten [simp]: "dim2 (mk_ten n t d f) = d"
  by (simp add: mk_ten_def)

lemma el3_mk_ten [simp]:
  "i < n \<Longrightarrow> j < t \<Longrightarrow> k < d \<Longrightarrow> el3 (mk_ten n t d f) i j k = f i j k"
  by (simp add: mk_ten_def el3_def)

lemma wf_mk_ten [simp]: "wf_ten (mk_ten n t d f)"
  by (simp add: wf_ten_def mk_ten_def list_all_iff)

lemma has_shape3_mk_ten [simp]:
  "has_shape3 (mk_ten n t d f) n' t' d' \<longleftrightarrow> n = n' \<and> t = t' \<and> d = d'"
  by (auto simp: has_shape3_def)

lemma mk_ten_congs:
  "n = n' \<Longrightarrow> t = t' \<Longrightarrow> d = d' \<Longrightarrow>
   (\<And>i j k. i < n' \<Longrightarrow> j < t' \<Longrightarrow> k < d' \<Longrightarrow> f i j k = g i j k) \<Longrightarrow>
   mk_ten n t d f = mk_ten n' t' d' g"
  by (simp add: mk_ten_def)

lemma nrows_view_t [simp]: "nrows (view_t X t) = dim0 X"
  and ncols_view_t [simp]: "ncols (view_t X t) = dim2 X"
  by (simp_all add: view_t_def)

lemma has_shape_view_t [simp]: "has_shape (view_t X t) n d \<longleftrightarrow> dim0 X = n \<and> dim2 X = d"
  by (simp add: view_t_def)

lemma view_t_mk_ten:
  "j < t \<Longrightarrow> view_t (mk_ten n t d f) j = mk_mat n d (\<lambda>i k. f i j k)"
  by (simp add: view_t_def cong: mk_mat_congs)

lemma foldM_append:
  "foldM f (xs @ ys) s = do { s' \<leftarrow> foldM f xs s; foldM f ys s' }"
  by (induction xs arbitrary: s) (simp_all split: Option.bind_split)

lemma lstm_step_forward_cache:
  assumes "has_shape x N D" "has_shape prev_h N H" "has_shape prev_c N H"
    "has_shape Wx D (4 * H)" "has_shape Wh H (4 * H)" "length b = 4 * H"
  shows "lstm_step_forward x prev_h prev_c Wx Wh b =
     Some (spec_h_next x prev_h prev_c Wx Wh b, spec_c_next x prev_h prev_c Wx Wh b,
           spec_cache x prev_h prev_c Wx Wh b)"
proof -
  have "ncols prev_h = H"
    using assms(2) by (simp add: has_shape_def)
  then show ?thesis
    by (simp add: lstm_step_forward_eq[OF assms] spec_cache_def)
qed

lemma has_shape_spec_next:
  assumes "nrows x = N" "ncols h = H"
  shows "has_shape (spec_h_next x h c Wx Wh b) N H" "has_shape (spec_c_next x h c Wx Wh b) N H"
  using assms by (simp_all add: spec_h_next_def spec_c_next_def Let_def)

lemma chain_st_shape:
  assumes "dim0 x = N" "has_shape h0 N H" "has_shape c0 N H"
  shows "has_shape (fst (chain_st x h0 c0 Wx Wh b t)) N H \<and>
         has_shape (snd (chain_st x h0 c0 Wx Wh b t)) N H"
proof (induction t)
  case 0
  then show ?case using assms by simp
next
  case (Suc t)
  then have "ncols (fst (chain_st x h0 c0 Wx Wh b t)) = H"
    by (simp add: has_shape_def)
  then show ?case
    using assms(1) by (simp add: has_shape_spec_next)
qed

lemma lstm_chain_eq:
  assumes "dim0 x = N" "dim2 x = D" "has_shape h0 N H" "has_shape c0 N H"
    "has_shape Wx D (4 * H)" "has_shape Wh H (4 * H)" "length b = 4 * H"
  shows "lstm_chain x h0 c0 Wx Wh b t = Some (chain_st x h0 c0 Wx Wh b t)"
proof (induction t)
  case 0
  then show ?case by simp
next
  case (Suc t)
  have sh: "has_shape (fst (chain_st x h0 c0 Wx Wh b t)) N H"
    "has_shape (snd (chain_st x h0 c0 Wx Wh b t)) N H"
    using chain_st_shape[OF assms(1,3,4)] by simp_all
  have v: "has_shape (view_t x t) N D"
    using assms(1,2) by simp
  show ?case
    by (simp add: Suc lstm_step_forward_cache[OF v sh assms(5-7)] split_beta)
qed

lemma set_t_fits:
  "t < dim1 X \<Longrightarrow> nrows V = dim0 X \<Longrightarrow> ncols V = dim2 X \<Longrightarrow>
   set_t X t V = Some (mk_ten (dim0 X) (dim1 X) (dim2 X)
             (\<lambda>i j k. if j = t then el V i k else el3 X i j k))"
  by (auto simp: set_t_def fits_def bel_el intro!: mk_ten_congs)

lemma lstm_forward_init_eq:
  assumes "has_shape h0 N H" "dim0 x = N" "nrows Wh = H"
  shows "lstm_forward_init x h0 Wh = Some (fwd_state x h0 Wx Wh b 0)"
  using assms
  by (auto simp: lstm_forward_init_def Let_def set_t_fits zeros3_def has_shape_def
      fwd_state_def intro!: mk_ten_congs)

lemma lstm_forward_body_eq:
  assumes sh: "has_shape3 x N T D" "has_shape h0 N H"
      "has_shape Wx D (4 * H)" "has_shape Wh H (4 * H)" "length b = 4 * H"
    and k: "k < T"
  shows "lstm_forward_body x Wx Wh b k (fwd_state x h0 Wx Wh b k)
         = Some (fwd_state x h0 Wx Wh b (Suc k))"
proof -
  let ?st = "chain_st x h0 (zeros_like h0) Wx Wh b"
  have d: "dim0 x = N" "dim1 x = T" "dim2 x = D" "nrows Wh = H" "nrows h0 = N" "ncols h0 = H"
    using sh by (simp_all add: has_shape3_def has_shape_def)
  have z: "has_shape (zeros_like h0) N H"
    by (simp add: zeros_like_def zeros_def d)
  have cs: "has_shape (fst (?st k)) N H" "has_shape (snd (?st k)) N H"
    using chain_st_shape[OF d(1) sh(2) z] by simp_all
  have v: "has_shape (view_t x k) N D"
    using d by simp
  have hk: "view_t (fst (fwd_state x h0 Wx Wh b k)) k = fst (?st k)"
  proof -
    have "view_t (fst (fwd_state x h0 Wx Wh b k)) k = mk_mat N H (el (fst (?st k)))"
      using k by (simp add: fwd_state_def view_t_mk_ten d)
    also have "\<dots> = fst (?st k)"
      using mk_mat_el[of "fst (?st k)"] cs(1) by (simp add: has_shape_def)
    finally show ?thesis .
  qed
  have nh: "nrows (spec_h_next (view_t x k) (fst (?st k)) (snd (?st k)) Wx Wh b) = N"
    "ncols (spec_h_next (view_t x k) (fst (?st k)) (snd (?st k)) Wx Wh b) = H"
    using has_shape_spec_next(1)[of "view_t x k" N "fst (?st k)" H] cs(1) d
    by (simp_all add: has_shape_def)
  have upd: "(\<lambda>t. if t < k then Some (spec_cache (view_t x t) (fst (?st t)) (snd (?st t)) Wx Wh b)
                   else None)(k \<mapsto> spec_cache (view_t x k) (fst (?st k)) (snd (?st k)) Wx Wh b)
      = (\<lambda>t. if t < Suc k then Some (spec_cache (view_t x t) (fst (?st t)) (snd (?st t)) Wx Wh b)
             else None)"
    by (rule ext) auto
  have buf: "mk_ten N (Suc T) H
     (\<lambda>i j ka. if j = Suc k
        then el (spec_h_next (view_t x k) (fst (?st k)) (snd (?st k)) Wx Wh b) i ka
        else el3 (mk_ten N (Suc T) H (\<lambda>n j d. if j \<le> k then el (fst (?st j)) n d else 0)) i j ka)
     = mk_ten N (Suc T) H (\<lambda>n j d. if j \<le> Suc k then el (fst (?st j)) n d else 0)"
    by (rule mk_ten_congs) (auto simp: le_Suc_eq)
  show ?thesis
    unfolding lstm_forward_body_def
    using k hk
    apply (simp add: fwd_state_def slice_t_def d lstm_step_forward_cache[OF v cs sh(3-5)]
        set_t_fits nh upd buf)
    done
qed


lemma lstm_forward_loop_eq:
  assumes sh: "has_shape3 x N T D" "has_shape h0 N H"
      "has_shape Wx D (4 * H)" "has_shape Wh H (4 * H)" "length b = 4 * H"
    and k: "k \<le> T"
  shows "foldM (lstm_forward_body x Wx Wh b) [0..<k] (fwd_state x h0 Wx Wh b 0)
         = Some (fwd_state x h0 Wx Wh b k)"
  using k
proof (induction k)
  case 0
  then show ?case by simp
next
  case (Suc k)
  then have "k < T" "k \<le> T" by simp_all
  then show ?case
    using Suc.IH lstm_forward_body_eq[OF sh \<open>k < T\<close>]
    by (simp add: foldM_append)
qed

lemma lstm_forward_eq:
  assumes sh: "has_shape3 x N T D" "has_shape h0 N H"
      "has_shape Wx D (4 * H)" "has_shape Wh H (4 * H)" "length b = 4 * H"
  shows "lstm_forward x h0 Wx Wh b =
     Some (mk_ten N T H (\<lambda>n t d. el (fst (chain_st x h0 (zeros N H) Wx Wh b (Suc t))) n d),
           (\<lambda>t. if t < T
              then Some (spec_cache (view_t x t) (fst (chain_st x h0 (zeros N H) Wx Wh b t))
                          (snd (chain_st x h0 (zeros N H) Wx Wh b t)) Wx Wh b)
              else None))"
proof -
  have d: "dim0 x = N" "dim1 x = T" "dim2 x = D" "nrows Wh = H" "nrows h0 = N" "ncols h0 = H"
    using sh by (simp_all add: has_shape3_def has_shape_def)
  have z: "zeros_like h0 = zeros N H"
    by (simp add: zeros_like_def d)
  have dr: "drop_first_t (fst (fwd_state x h0 Wx Wh b T)) =
      mk_ten N T H (\<lambda>n t d. el (fst (chain_st x h0 (zeros N H) Wx Wh b (Suc t))) n d)"
    unfolding drop_first_t_def fwd_state_def z
    by (simp add: d cong: mk_ten_congs del: chain_st.simps)
  have lp: "foldM (lstm_forward_body x Wx Wh b) [0..<dim1 x] (fwd_state x h0 Wx Wh b 0)
         = Some (fwd_state x h0 Wx Wh b T)"
    using lstm_forward_loop_eq[OF sh, of T] by (simp add: d)
  have "lstm_forward x h0 Wx Wh b =
      Some (drop_first_t (fst (fwd_state x h0 Wx Wh b T)), snd (snd (fwd_state x h0 Wx Wh b T)))"
    unfolding lstm_forward_def lstm_forward_init_eq[OF sh(2) d(1) d(4), of Wx b]
    by (simp add: lp split_beta)
  moreover have "snd (snd (fwd_state x h0 Wx Wh b T)) =
      (\<lambda>t. if t < T
              then Some (spec_cache (view_t x t) (fst (chain_st x h0 (zeros N H) Wx Wh b t))
                          (snd (chain_st x h0 (zeros N H) Wx Wh b t)) Wx Wh b)
              else None)"
    unfolding fwd_state_def z by simp
  ultimately show ?thesis
    by (simp only: dr)
qed

lemma lstm_chain_cache_eq:
  assumes "dim0 x = N" "dim2 x = D" "has_shape h0 N H" "has_shape c0 N H"
    "has_shape Wx D (4 * H)" "has_shape Wh H (4 * H)" "length b = 4 * H"
  shows "lstm_chain_cache x h0 c0 Wx Wh b t =
     Some (spec_cache (view_t x t) (fst (chain_st x h0 c0 Wx Wh b t))
             (snd (chain_st x h0 c0 Wx Wh b t)) Wx Wh b)"
proof -
  have sh: "has_shape (fst (chain_st x h0 c0 Wx Wh b t)) N H"
    "has_shape (snd (chain_st x h0 c0 Wx Wh b t)) N H"
    using chain_st_shape[OF assms(1,3,4)] by simp_all
  have v: "has_shape (view_t x t) N D"
    using assms(1,2) by simp
  show ?thesis
    by (simp add: lstm_chain_cache_def lstm_chain_eq[OF assms]
        lstm_step_forward_cache[OF v sh assms(5-7)] split_beta)
qed

lemma view_t_forward_h:
  assumes "has_shape (hs (Suc t)) N H" "t < T"
  shows "view_t (mk_ten N T H (\<lambda>n t d. el (hs (Suc t)) n d)) t = hs (Suc t)"
proof -
  have "view_t (mk_ten N T H (\<lambda>n t d. el (hs (Suc t)) n d)) t = mk_mat N H (el (hs (Suc t)))"
    using assms(2) by (simp add: view_t_mk_ten)
  also have "\<dots> = hs (Suc t)"
    using mk_mat_el[of "hs (Suc t)"] assms(1) by (simp add: has_shape_def)
  finally show ?thesis .
qed

text \<open>
  Claim C5. For inputs of agreeing shapes, \<open>lstm_forward\<close> starts its cell state at the
  zero \<open>N\<times>H\<close> matrix whatever \<open>h0\<close> is: the state before the loop holds \<open>zeros N H\<close> for
  every \<open>h0\<close> of shape \<open>N\<times>H\<close>, the hidden states and the caches it returns are those of
  the chain of steps started explicitly from \<open>c0 = 0\<close>, and the cache of the first
  timestep records \<open>prev_c = 0\<close>.
\<close>

theorem lstm_forward_zero_cell:
  assumes sh: "has_shape3 x N T D" "has_shape h0 N H"
      "has_shape Wx D (4 * H)" "has_shape Wh H (4 * H)" "length b = 4 * H"
  shows "\<exists>hbuf h caches.
     lstm_forward_init x h0 Wh = Some (hbuf, zeros N H, Map.empty) \<and>
     lstm_forward x h0 Wx Wh b = Some (h, caches) \<and>
     (\<forall>t<T. \<exists>ht ct. lstm_chain x h0 (zeros N H) Wx Wh b (Suc t) = Some (ht, ct)
                    \<and> view_t h t = ht) \<and>
     (\<forall>t<T. caches t = lstm_chain_cache x h0 (zeros N H) Wx Wh b t) \<and>
     (\<forall>t\<ge>T. caches t = None) \<and>
     (0 < T \<longrightarrow> map_option c_prev_c (caches 0) = Some (zeros N H)) \<and>
     (\<forall>h0'. has_shape h0' N H \<longrightarrow>
        map_option (\<lambda>st. fst (snd st)) (lstm_forward_init x h0' Wh) = Some (zeros N H))"
proof -
  let ?st = "chain_st x h0 (zeros N H) Wx Wh b"
  let ?h = "mk_ten N T H (\<lambda>n t d. el (fst (?st (Suc t))) n d)"
  let ?caches = "\<lambda>t. if t < T
      then Some (spec_cache (view_t x t) (fst (?st t)) (snd (?st t)) Wx Wh b) else None"
  have d: "dim0 x = N" "dim1 x = T" "dim2 x = D" "nrows Wh = H" "nrows h0 = N" "ncols h0 = H"
    using sh by (simp_all add: has_shape3_def has_shape_def)
  have z: "has_shape (zeros N H) N H"
    by (simp add: zeros_def)
  have init: "\<And>h0'. has_shape h0' N H \<Longrightarrow>
      lstm_forward_init x h0' Wh = Some (fst (fwd_state x h0' Wx Wh b 0), zeros N H, Map.empty)"
    by (simp add: lstm_forward_init_eq[OF _ d(1) d(4), of _ Wx b] fwd_state_def zeros_like_def
        has_shape_def)
  have fw: "lstm_forward x h0 Wx Wh b = Some (?h, ?caches)"
    by (rule lstm_forward_eq[OF sh])
  have ch: "\<And>t. lstm_chain x h0 (zeros N H) Wx Wh b t = Some (?st t)"
    by (rule lstm_chain_eq[OF d(1) d(3) sh(2) z sh(3-5)])
  have hs: "\<And>t. has_shape (fst (?st t)) N H"
    using chain_st_shape[OF d(1) sh(2) z] by simp
  have v: "\<forall>t<T. \<exists>ht ct. lstm_chain x h0 (zeros N H) Wx Wh b (Suc t) = Some (ht, ct)
                    \<and> view_t ?h t = ht"
  proof (intro allI impI)
    fix t assume t: "t < T"
    have "view_t ?h t = fst (?st (Suc t))"
      by (rule view_t_forward_h[where hs = "\<lambda>t. fst (?st t)", OF hs t])
    then have "lstm_chain x h0 (zeros N H) Wx Wh b (Suc t)
           = Some (fst (?st (Suc t)), snd (?st (Suc t))) \<and> view_t ?h t = fst (?st (Suc t))"
      by (simp add: ch del: chain_st.simps lstm_chain.simps)
    then show "\<exists>ht ct. lstm_chain x h0 (zeros N H) Wx Wh b (Suc t) = Some (ht, ct)
                    \<and> view_t ?h t = ht"
      by blast
  qed
  have c: "\<forall>t<T. ?caches t = lstm_chain_cache x h0 (zeros N H) Wx Wh b t"
    by (simp add: lstm_chain_cache_eq[OF d(1) d(3) sh(2) z sh(3-5)])
  have p: "0 < T \<longrightarrow> map_option c_prev_c (?caches 0) = Some (zeros N H)"
    by (simp add: spec_cache_def)
  have i2: "\<forall>h0'. has_shape h0' N H \<longrightarrow>
        map_option (\<lambda>st. fst (snd st)) (lstm_forward_init x h0' Wh) = Some (zeros N H)"
    by (simp add: init)
  show ?thesis
    apply (rule exI[of _ "fst (fwd_state x h0 Wx Wh b 0)"], rule exI[of _ ?h],
        rule exI[of _ ?caches])
    apply (intro conjI)
          apply (rule init[OF sh(2)])
         apply (rule fw)
        apply (rule v)
       apply (rule c)
      apply simp
     apply (rule p)
    apply (rule i2)
    done
qed


lemma ex_shape3: "has_shape3 ex_x3 1 1 1" "has_shape3 ex_dh3 1 1 1"
  by (simp_all add: ex_defs has_shape3_def wf_ten_def)

lemma ex_zeros: "zeros 1 1 = ex_zero"
  by (simp add: zeros_def ex_defs eval_simps)

theorem lstm_forward_zero_cell_witness:
  "\<exists>hbuf h caches.
     lstm_forward_init ex_x3 ex_zero ex_W = Some (hbuf, ex_zero, Map.empty) \<and>
     lstm_forward ex_x3 ex_zero ex_W ex_W ex_b1 = Some (h, caches) \<and>
     map_option c_prev_c (caches 0) = Some ex_zero \<and>
     map_option (\<lambda>st. fst (snd st)) (lstm_forward_init ex_x3 ex_two ex_W) = Some ex_zero"
proof -
  have b: "length ex_b1 = 4 * 1"
    by (simp add: ex_defs)
  from lstm_forward_zero_cell[OF ex_shape3(1) ex_shapes(1) ex_shapes(5) ex_shapes(5) b]
  obtain hbuf h caches where
    i: "lstm_forward_init ex_x3 ex_zero ex_W = Some (hbuf, zeros 1 1, Map.empty)" and
    f: "lstm_forward ex_x3 ex_zero ex_W ex_W ex_b1 = Some (h, caches)" and
    p: "0 < (1::nat) \<longrightarrow> map_option c_prev_c (caches 0) = Some (zeros 1 1)" and
    a: "\<forall>h0'. has_shape h0' 1 1 \<longrightarrow>
        map_option (\<lambda>st. fst (snd st)) (lstm_forward_init ex_x3 h0' ex_W) = Some (zeros 1 1)"
    by (elim exE conjE) (rule that; assumption)
  show ?thesis
    using i f p a ex_shapes(3) unfolding ex_zeros by auto
qed

text \<open>
  Claim C6, amended. For \<open>x\<close> of shape \<open>(N, T, D)\<close> and parameters of agreeing shapes,
  \<open>lstm_forward\<close> returns \<open>h\<close> of shape \<open>(N, T, H)\<close> and a dict of exactly \<open>T\<close> caches,
  keyed \<open>0 \<dots> T - 1\<close>. The state \<open>(h, c)\<close> is threaded through the timesteps in
  increasing order: the step at \<open>t\<close> runs on the state the chain has after \<open>t\<close> steps, its
  hidden state is the slice \<open>h[:, t, :]\<close> (so \<open>h0\<close> is no slice of the output), and its
  cache is the entry \<open>t\<close> of the dict. The cell state is no component of the returned
  pair, but every cache records it: \<open>prev_c\<close> is the cell state before the step and
  \<open>next_c\<close> the cell state after it.
\<close>

theorem lstm_forward_hidden_states:
  assumes sh: "has_shape3 x N T D" "has_shape h0 N H"
      "has_shape Wx D (4 * H)" "has_shape Wh H (4 * H)" "length b = 4 * H"
  shows "\<exists>h caches.
     lstm_forward x h0 Wx Wh b = Some (h, caches) \<and>
     has_shape3 h N T H \<and> dom caches = {..<T} \<and>
     (\<forall>t<T. \<exists>hp cp ht ct cache.
        lstm_chain x h0 (zeros N H) Wx Wh b t = Some (hp, cp) \<and>
        lstm_step_forward (view_t x t) hp cp Wx Wh b = Some (ht, ct, cache) \<and>
        view_t h t = ht \<and> caches t = Some cache \<and>
        c_prev_h cache = hp \<and> c_prev_c cache = cp \<and>
        c_next_h cache = ht \<and> c_next_c cache = ct)"
proof -
  let ?st = "chain_st x h0 (zeros N H) Wx Wh b"
  let ?h = "mk_ten N T H (\<lambda>n t d. el (fst (?st (Suc t))) n d)"
  let ?caches = "\<lambda>t. if t < T
      then Some (spec_cache (view_t x t) (fst (?st t)) (snd (?st t)) Wx Wh b) else None"
  have d: "dim0 x = N" "dim1 x = T" "dim2 x = D"
    using sh by (simp_all add: has_shape3_def)
  have z: "has_shape (zeros N H) N H"
    by (simp add: zeros_def)
  have fw: "lstm_forward x h0 Wx Wh b = Some (?h, ?caches)"
    by (rule lstm_forward_eq[OF sh])
  have ch: "\<And>t. lstm_chain x h0 (zeros N H) Wx Wh b t = Some (fst (?st t), snd (?st t))"
    by (simp add: lstm_chain_eq[OF d(1) d(3) sh(2) z sh(3-5)])
  have hs: "\<And>t. has_shape (fst (?st t)) N H" "\<And>t. has_shape (snd (?st t)) N H"
    using chain_st_shape[OF d(1) sh(2) z] by simp_all
  have v: "\<And>t. has_shape (view_t x t) N D"
    using d by simp
  have dm: "dom ?caches = {..<T}"
    by (auto simp: dom_def)
  have steps: "\<forall>t<T. \<exists>hp cp ht ct cache.
        lstm_chain x h0 (zeros N H) Wx Wh b t = Some (hp, cp) \<and>
        lstm_step_forward (view_t x t) hp cp Wx Wh b = Some (ht, ct, cache) \<and>
        view_t ?h t = ht \<and> ?caches t = Some cache \<and>
        c_prev_h cache = hp \<and> c_prev_c cache = cp \<and>
        c_next_h cache = ht \<and> c_next_c cache = ct"
  proof (intro allI impI)
    fix t assume t: "t < T"
    let ?hp = "fst (?st t)" and ?cp = "snd (?st t)"
    let ?ht = "spec_h_next (view_t x t) ?hp ?cp Wx Wh b"
    let ?ct = "spec_c_next (view_t x t) ?hp ?cp Wx Wh b"
    let ?c = "spec_cache (view_t x t) ?hp ?cp Wx Wh b"
    have "view_t ?h t = fst (?st (Suc t))"
      by (rule view_t_forward_h[where hs = "\<lambda>t. fst (?st t)", OF hs(1) t])
    then have vh: "view_t ?h t = ?ht"
      by simp
    have "lstm_chain x h0 (zeros N H) Wx Wh b t = Some (?hp, ?cp) \<and>
        lstm_step_forward (view_t x t) ?hp ?cp Wx Wh b = Some (?ht, ?ct, ?c) \<and>
        view_t ?h t = ?ht \<and> ?caches t = Some ?c \<and>
        c_prev_h ?c = ?hp \<and> c_prev_c ?c = ?cp \<and>
        c_next_h ?c = ?ht \<and> c_next_c ?c = ?ct"
      using t vh
      by (simp add: ch lstm_step_forward_cache[OF v hs sh(3-5)] spec_cache_def
          del: chain_st.simps lstm_chain.simps)
    then show "\<exists>hp cp ht ct cache.
        lstm_chain x h0 (zeros N H) Wx Wh b t = Some (hp, cp) \<and>
        lstm_step_forward (view_t x t) hp cp Wx Wh b = Some (ht, ct, cache) \<and>
        view_t ?h t = ht \<and> ?caches t = Some cache \<and>
        c_prev_h cache = hp \<and> c_prev_c cache = cp \<and>
        c_next_h cache = ht \<and> c_next_c cache = ct"
      by blast
  qed
  have s3: "has_shape3 ?h N T H"
    by simp
  show ?thesis
    apply (rule exI[of _ ?h], rule exI[of _ ?caches])
    apply (intro conjI)
       apply (rule fw)
      apply (rule s3)
     apply (rule dm)
    apply (rule steps)
    done
qed

lemma ex_view: "view_t ex_x3 0 = ex_zero"
  by (simp add: view_t_def ex_defs eval_simps)

lemma ex_zeros_Suc: "zeros (Suc 0) (Suc 0) = ex_zero"
  using ex_zeros by simp

lemma ex_b1_len: "length ex_b1 = 4 * 1"
  by (simp add: ex_defs)

lemma ex_step1:
  "lstm_step_forward ex_zero ex_zero ex_zero ex_W ex_W ex_b1 =
     Some (ex_h2, ex_c1, spec_cache ex_zero ex_zero ex_zero ex_W ex_W ex_b1)"
proof -
  have c: "spec_c_next ex_zero ex_zero ex_zero ex_W ex_W ex_b1 = ex_c1"
    by (simp add: spec_c_next_def spec_activation_def spec_block_def
        map_mat_def logistic_def ex_defs eval_simps)
  have h: "spec_h_next ex_zero ex_zero ex_zero ex_W ex_W ex_b1 = ex_h2"
    by (simp add: spec_h_next_def spec_c_next_def spec_activation_def spec_block_def
        map_mat_def logistic_def ex_defs eval_simps)
  show ?thesis
    unfolding lstm_step_forward_cache[OF ex_shapes(1) ex_shapes(1) ex_shapes(1) ex_shapes(5)
        ex_shapes(5) ex_b1_len] c h ..
qed

lemma ex_step1_next_c: "c_next_c (spec_cache ex_zero ex_zero ex_zero ex_W ex_W ex_b1) = ex_c1"
  using ex_step1 lstm_step_forward_cache[OF ex_shapes(1) ex_shapes(1) ex_shapes(1) ex_shapes(5)
        ex_shapes(5) ex_b1_len]
  by (simp add: spec_cache_def)

theorem lstm_forward_cell_state_counterexample:
  "map_option snd (lstm_chain ex_x3 ex_zero ex_zero ex_W ex_W ex_b1 1) = Some ex_c1 \<and>
   returned_next_c (lstm_forward ex_x3 ex_zero ex_W ex_W ex_b1) 0 = Some ex_c1"
proof -
  have "lstm_chain ex_x3 ex_zero ex_zero ex_W ex_W ex_b1 (Suc 0) = Some (ex_h2, ex_c1)"
    by (simp add: ex_view ex_step1)
  moreover have "returned_next_c (lstm_forward ex_x3 ex_zero ex_W ex_W ex_b1) 0 = Some ex_c1"
    unfolding lstm_forward_eq[OF ex_shape3(1) ex_shapes(1) ex_shapes(5) ex_shapes(5) ex_b1_len]
    by (simp add: returned_next_c_def ex_view ex_zeros_Suc ex_step1_next_c)
  ultimately show ?thesis
    by simp
qed

theorem lstm_forward_hidden_states_witness:
  "\<exists>h caches. lstm_forward ex_x3 ex_zero ex_W ex_W ex_b1 = Some (h, caches) \<and>
     has_shape3 h 1 1 1 \<and> dom caches = {..<1} \<and> view_t h 0 = ex_h2 \<and>
     map_option c_next_c (caches 0) = Some ex_c1"
proof -
  from lstm_forward_hidden_states[OF ex_shape3(1) ex_shapes(1) ex_shapes(5) ex_shapes(5)
      ex_b1_len]
  obtain h caches where
    f: "lstm_forward ex_x3 ex_zero ex_W ex_W ex_b1 = Some (h, caches)" and
    s: "has_shape3 h 1 1 1" and d: "dom caches = {..<1}" and
    st: "\<forall>t<1. \<exists>hp cp ht ct cache.
        lstm_chain ex_x3 ex_zero (zeros 1 1) ex_W ex_W ex_b1 t = Some (hp, cp) \<and>
        lstm_step_forward (view_t ex_x3 t) hp cp ex_W ex_W ex_b1 = Some (ht, ct, cache) \<and>
        view_t h t = ht \<and> caches t = Some cache \<and>
        c_prev_h cache = hp \<and> c_prev_c cache = cp \<and>
        c_next_h cache = ht \<and> c_next_c cache = ct"
    by (elim exE conjE) (rule that; assumption)
  from st have "view_t h 0 = ex_h2 \<and> map_option c_next_c (caches 0) = Some ex_c1"
    by (auto simp: ex_zeros_Suc ex_view ex_step1)
  with f s d show ?thesis
    by blast
qed

section \<open>The backward pass over a sequence\<close>

lemma lstm_backward_no_cache:
  "cache 0 = None \<Longrightarrow> lstm_backward_init dh cache = None \<and> lstm_backward dh cache = None"
  by (simp add: lstm_backward_def lstm_backward_init_def)

text \<open>
  Claim C9. \<open>lstm_backward\<close> reads \<open>D\<close> from \<open>cache[0]\<close> before anything else. The dict a
  forward pass over \<open>T = 0\<close> timesteps returns is empty, and on it every call of
  \<open>lstm_backward\<close> fails at that lookup, before the loop; the dict a forward pass over
  \<open>T \<ge> 1\<close> timesteps returns has the key 0, its \<open>x\<close> has shape \<open>N\<times>D\<close>, and the lookup and
  the initialisation succeed.
\<close>

theorem lstm_backward_needs_cache:
  assumes sh: "has_shape3 x N T D" "has_shape h0 N H"
      "has_shape Wx D (4 * H)" "has_shape Wh H (4 * H)" "length b = 4 * H"
  shows "\<exists>h caches.
     lstm_forward x h0 Wx Wh b = Some (h, caches) \<and>
     (T = 0 \<longrightarrow> caches = Map.empty \<and> lstm_backward_init dh caches = None
                \<and> lstm_backward dh caches = None) \<and>
     (1 \<le> T \<longrightarrow> (\<exists>c0. caches 0 = Some c0 \<and> has_shape (c_x c0) N D)
                \<and> (\<exists>st. lstm_backward_init dh caches = Some st))"
proof -
  let ?st = "chain_st x h0 (zeros N H) Wx Wh b"
  let ?h = "mk_ten N T H (\<lambda>n t d. el (fst (?st (Suc t))) n d)"
  let ?caches = "\<lambda>t. if t < T
      then Some (spec_cache (view_t x t) (fst (?st t)) (snd (?st t)) Wx Wh b) else None"
  have d: "dim0 x = N" "dim1 x = T" "dim2 x = D"
    using sh by (simp_all add: has_shape3_def)
  have fw: "lstm_forward x h0 Wx Wh b = Some (?h, ?caches)"
    by (rule lstm_forward_eq[OF sh])
  have e: "T = 0 \<longrightarrow> ?caches = Map.empty \<and> lstm_backward_init dh ?caches = None
                \<and> lstm_backward dh ?caches = None"
  proof
    assume T0: "T = 0"
    then have c: "?caches = Map.empty"
      by auto
    show "?caches = Map.empty \<and> lstm_backward_init dh ?caches = None
                \<and> lstm_backward dh ?caches = None"
      unfolding c using lstm_backward_no_cache[of Map.empty dh] by simp
  qed
  have n: "1 \<le> T \<longrightarrow> (\<exists>c0. ?caches 0 = Some c0 \<and> has_shape (c_x c0) N D)
                \<and> (\<exists>st. lstm_backward_init dh ?caches = Some st)"
    using d by (auto simp: spec_cache_def lstm_backward_init_def Let_def)
  show ?thesis
    apply (rule exI[of _ ?h], rule exI[of _ ?caches])
    apply (intro conjI)
      apply (rule fw)
     apply (rule e)
    apply (rule n)
    done
qed

lemma ex_shape30: "has_shape3 ex_x0 1 0 1"
  by (simp add: ex_defs has_shape3_def wf_ten_def)

theorem lstm_backward_needs_cache_witness:
  "(\<exists>h. lstm_forward ex_x0 ex_zero ex_W ex_W ex_b = Some (h, Map.empty)) \<and>
   lstm_backward ex_dh3 Map.empty = None \<and>
   (\<exists>h caches c0 st. lstm_forward ex_x3 ex_zero ex_W ex_W ex_b1 = Some (h, caches) \<and>
      caches 0 = Some c0 \<and> lstm_backward_init ex_dh3 caches = Some st)"
proof -
  from lstm_backward_needs_cache[OF ex_shape30 ex_shapes(1) ex_shapes(5) ex_shapes(5)
      ex_shapes(6), of ex_dh3]
  have a: "(\<exists>h. lstm_forward ex_x0 ex_zero ex_W ex_W ex_b = Some (h, Map.empty)) \<and>
      lstm_backward ex_dh3 Map.empty = None"
    by auto
  from lstm_backward_needs_cache[OF ex_shape3(1) ex_shapes(1) ex_shapes(5) ex_shapes(5)
      ex_b1_len, of ex_dh3]
  have b: "\<exists>h caches c0 st. lstm_forward ex_x3 ex_zero ex_W ex_W ex_b1 = Some (h, caches) \<and>
      caches 0 = Some c0 \<and> lstm_backward_init ex_dh3 caches = Some st"
    by (elim exE conjE) auto
  from a b show ?thesis
    by blast
qed

lemma step_backward_shapes:
  assumes "has_shape dnext_h N H" "has_shape dnext_c N H" "wf_cache N D H cache"
  shows "\<exists>r. lstm_step_backward dnext_h dnext_c cache = Some r \<and>
     has_shape (g_dx r) N D \<and> has_shape (g_dprev_h r) N H \<and> has_shape (g_dprev_c r) N H \<and>
     has_shape (g_dWx r) D (4 * H) \<and> has_shape (g_dWh r) H (4 * H) \<and> length (g_db r) = 4 * H"
proof -
  have d: "nrows dnext_h = N" "ncols dnext_h = H" "nrows dnext_c = N" "ncols dnext_c = H"
    using assms(1,2) by (simp_all add: has_shape_def)
  show ?thesis
    unfolding lstm_step_backward_eq[OF d assms(3)]
    by (simp add: Let_def g_dx_def g_dprev_h_def g_dprev_c_def g_dWx_def g_dWh_def g_db_def
        mk_vec_def)
qed

lemma bptt_step_at_shapes:
  assumes "has_shape3 dh N T H" "t < T" "caches t = Some c" "wf_cache N D H c"
    "has_shape dhc N H" "has_shape dcc N H"
  shows "\<exists>r. bptt_step_at dh caches t dhc dcc = Some r \<and>
     has_shape (g_dx r) N D \<and> has_shape (g_dprev_h r) N H \<and> has_shape (g_dprev_c r) N H \<and>
     has_shape (g_dWx r) D (4 * H) \<and> has_shape (g_dWh r) H (4 * H) \<and> length (g_db r) = 4 * H"
proof -
  have d: "dim0 dh = N" "dim1 dh = T" "dim2 dh = H" "nrows dhc = N" "ncols dhc = H"
    using assms(1,5) by (simp_all add: has_shape3_def has_shape_def)
  have tot: "add_m (view_t dh t) dhc =
      Some (mk_mat N H (\<lambda>i j. el (view_t dh t) i j + el dhc i j))"
    using add_m_same[of dhc "view_t dh t"] d by simp
  have sh: "has_shape (mk_mat N H (\<lambda>i j. el (view_t dh t) i j + el dhc i j)) N H"
    by simp
  show ?thesis
    unfolding bptt_step_at_def
    using step_backward_shapes[OF sh assms(6) assms(4)] assms(2,3)
    by (simp add: slice_t_def d tot)
qed

lemma bptt_shapes:
  assumes "has_shape3 dh N T H" "\<forall>t<T. \<exists>c. caches t = Some c \<and> wf_cache N D H c" "j \<le> T"
  shows "\<exists>ch cc. bptt dh caches j = Some (ch, cc) \<and> has_shape ch N H \<and> has_shape cc N H"
  using assms(3)
proof (induction j)
  case 0
  then show ?case
    using assms(1) by (simp add: has_shape3_def zeros_def)
next
  case (Suc j)
  then obtain ch cc where c: "bptt dh caches j = Some (ch, cc)" "has_shape ch N H"
      "has_shape cc N H"
    by auto
  have t: "T - Suc j < T"
    using Suc.prems by simp
  then obtain cch where cch: "caches (T - Suc j) = Some cch" "wf_cache N D H cch"
    using assms(2) by blast
  from bptt_step_at_shapes[where caches = caches and t = "T - Suc j", OF assms(1) t cch c(2,3)]
  obtain r where r: "bptt_step_at dh caches (T - Suc j) ch cc = Some r"
    "has_shape (g_dprev_h r) N H" "has_shape (g_dprev_c r) N H"
    by blast
  have "dim1 dh = T"
    using assms(1) by (simp add: has_shape3_def)
  then show ?case
    using c(1) r by simp
qed

lemma bptt_grads_shapes:
  assumes "has_shape3 dh N T H" "\<forall>t<T. \<exists>c. caches t = Some c \<and> wf_cache N D H c" "t < T"
  shows "\<exists>r. bptt_grads dh caches t = Some r \<and>
     has_shape (g_dx r) N D \<and> has_shape (g_dprev_h r) N H \<and> has_shape (g_dprev_c r) N H \<and>
     has_shape (g_dWx r) D (4 * H) \<and> has_shape (g_dWh r) H (4 * H) \<and> length (g_db r) = 4 * H"
proof -
  have T: "dim1 dh = T"
    using assms(1) by (simp add: has_shape3_def)
  have "T - Suc t \<le> T" by simp
  from bptt_shapes[OF assms(1,2) this]
  obtain ch cc where c: "bptt dh caches (T - Suc t) = Some (ch, cc)" "has_shape ch N H"
      "has_shape cc N H"
    by blast
  obtain cch where cch: "caches t = Some cch" "wf_cache N D H cch"
    using assms(2,3) by blast
  show ?thesis
    unfolding bptt_grads_def
    using bptt_step_at_shapes[where caches = caches and t = t, OF assms(1) assms(3) cch c(2,3)]
    by (simp add: T c(1))
qed

lemma take_Suc_rev_upt:
  "j < T \<Longrightarrow> take (Suc j) (rev [0..<T]) = take j (rev [0..<T]) @ [T - Suc j]"
  by (simp add: take_Suc_conv_app_nth rev_nth)


lemma iadd_t_fits:
  "t < dim1 X \<Longrightarrow> nrows V = dim0 X \<Longrightarrow> ncols V = dim2 X \<Longrightarrow>
   iadd_t X t V = Some (mk_ten (dim0 X) (dim1 X) (dim2 X)
             (\<lambda>i j k. if j = t then el3 X i j k + el V i k else el3 X i j k))"
  by (auto simp: iadd_t_def fits_def bel_el intro!: mk_ten_congs)

lemma length_mk_vec [simp]: "length (mk_vec n f) = n"
  by (simp add: mk_vec_def)

lemma nth_mk_vec [simp]: "i < n \<Longrightarrow> mk_vec n f ! i = f i"
  by (simp add: mk_vec_def)

lemma mk_vec_congs:
  "n = n' \<Longrightarrow> (\<And>i. i < n' \<Longrightarrow> f i = g i) \<Longrightarrow> mk_vec n f = mk_vec n' g"
  by (simp add: mk_vec_def)

lemma iadd_v_same:
  "length v = length a \<Longrightarrow> iadd_v a v = Some (mk_vec (length a) (\<lambda>j. a ! j + v ! j))"
  by (auto simp: iadd_v_def intro!: mk_vec_congs)

lemma lstm_backward_body_alt:
  "lstm_backward_body dh caches i (dx, dprev, dprev_c, dWx, dWh, db) = do {
     r \<leftarrow> bptt_step_at dh caches i dprev dprev_c;
     dx \<leftarrow> iadd_t dx i (g_dx r);
     db \<leftarrow> iadd_v db (g_db r);
     dWx \<leftarrow> iadd dWx (g_dWx r);
     dWh \<leftarrow> iadd dWh (g_dWh r);
     Some (dx, g_dprev_h r, g_dprev_c r, dWx, dWh, db)
   }"
  by (simp add: lstm_backward_body_def bptt_step_at_def split_def g_dx_def g_dprev_h_def
      g_dprev_c_def g_dWx_def g_dWh_def g_db_def)

lemma lstm_backward_body_eq:
  assumes sh: "has_shape3 dh N T H"
    and ca: "\<forall>t<T. \<exists>c. caches t = Some c \<and> wf_cache N D H c"
    and C: "\<forall>j\<le>T. bptt dh caches j = Some (C j)"
    and G: "\<forall>t<T. bptt_grads dh caches t = Some (G t)"
    and j: "j < T"
  shows "lstm_backward_body dh caches (T - Suc j) (bwd_state N T D H C G j)
         = Some (bwd_state N T D H C G (Suc j))"
proof -
  let ?t = "T - Suc j"
  have t: "?t < T" "T - Suc ?t = j"
    using j by simp_all
  have d: "dim0 dh = N" "dim1 dh = T" "dim2 dh = H"
    using sh by (simp_all add: has_shape3_def)
  have Cj: "bptt dh caches j = Some (fst (C j), snd (C j))"
    using C j by simp
  have "bptt_grads dh caches ?t = Some (G ?t)"
    using G t(1) by simp
  then have st: "bptt_step_at dh caches ?t (fst (C j)) (snd (C j)) = Some (G ?t)"
    unfolding bptt_grads_def d t(2) Cj by (simp add: split_beta)
  have CS: "C (Suc j) = (g_dprev_h (G ?t), g_dprev_c (G ?t))"
  proof -
    have "bptt dh caches (Suc j) = Some (g_dprev_h (G ?t), g_dprev_c (G ?t))"
      by (simp add: Cj d st split_beta)
    moreover have "bptt dh caches (Suc j) = Some (C (Suc j))"
      using C j by (simp del: bptt.simps)
    ultimately show ?thesis by simp
  qed
  from bptt_grads_shapes[OF sh ca t(1)] G t(1)
  have gs: "has_shape (g_dx (G ?t)) N D" "has_shape (g_dWx (G ?t)) D (4 * H)"
    "has_shape (g_dWh (G ?t)) H (4 * H)" "length (g_db (G ?t)) = 4 * H"
    by auto
  then have gd: "nrows (g_dx (G ?t)) = N" "ncols (g_dx (G ?t)) = D"
    "nrows (g_dWx (G ?t)) = D" "ncols (g_dWx (G ?t)) = 4 * H"
    "nrows (g_dWh (G ?t)) = H" "ncols (g_dWh (G ?t)) = 4 * H"
    by (simp_all add: has_shape_def)
  have dx: "iadd_t (mk_ten N T D (\<lambda>n t d. if T - j \<le> t then el (g_dx (G t)) n d else 0)) ?t
              (g_dx (G ?t))
      = Some (mk_ten N T D (\<lambda>n t d. if T - Suc j \<le> t then el (g_dx (G t)) n d else 0))"
    using t(1) j
    by (auto simp: iadd_t_fits gd intro!: mk_ten_congs)
  have db: "iadd_v (mk_vec (4 * H) (\<lambda>m. \<Sum>i<j. g_db (G (T - Suc i)) ! m)) (g_db (G ?t))
      = Some (mk_vec (4 * H) (\<lambda>m. \<Sum>i<Suc j. g_db (G (T - Suc i)) ! m))"
    by (auto simp: iadd_v_same gs(4) intro!: mk_vec_congs)
  have dWx: "iadd (mk_mat D (4 * H) (\<lambda>d m. \<Sum>i<j. el (g_dWx (G (T - Suc i))) d m))
               (g_dWx (G ?t))
      = Some (mk_mat D (4 * H) (\<lambda>d m. \<Sum>i<Suc j. el (g_dWx (G (T - Suc i))) d m))"
    by (auto simp: iadd_same gd intro!: mk_mat_congs)
  have dWh: "iadd (mk_mat H (4 * H) (\<lambda>k m. \<Sum>i<j. el (g_dWh (G (T - Suc i))) k m))
               (g_dWh (G ?t))
      = Some (mk_mat H (4 * H) (\<lambda>k m. \<Sum>i<Suc j. el (g_dWh (G (T - Suc i))) k m))"
    by (auto simp: iadd_same gd intro!: mk_mat_congs)
  show ?thesis
    unfolding bwd_state_def lstm_backward_body_alt st
    by (simp add: dx db dWx dWh CS del: sum.lessThan_Suc)
qed


lemma sum_rev_index:
  fixes f :: "nat \<Rightarrow> real"
  shows "(\<Sum>i<T. f (T - Suc i)) = (\<Sum>t<T. f t)"
  by (rule sum.nat_diff_reindex)

lemma lstm_backward_loop_eq:
  assumes sh: "has_shape3 dh N T H"
    and ca: "\<forall>t<T. \<exists>c. caches t = Some c \<and> wf_cache N D H c"
    and C: "\<forall>j\<le>T. bptt dh caches j = Some (C j)"
    and G: "\<forall>t<T. bptt_grads dh caches t = Some (G t)"
    and j: "j \<le> T"
  shows "foldM (lstm_backward_body dh caches) (take j (rev [0..<T])) (bwd_state N T D H C G 0)
         = Some (bwd_state N T D H C G j)"
  using j
proof (induction j)
  case 0
  then show ?case by simp
next
  case (Suc j)
  then have j: "j < T" by simp
  show ?case
    using Suc.IH j lstm_backward_body_eq[OF sh ca C G j]
    by (simp add: take_Suc_rev_upt[OF j] foldM_append)
qed

lemma lstm_backward_init_eq:
  assumes sh: "has_shape3 dh N T H"
    and c0: "caches 0 = Some c" "ncols (c_x c) = D"
    and C0: "C 0 = (zeros N H, zeros N H)"
  shows "lstm_backward_init dh caches = Some (zeros N H, bwd_state N T D H C G 0)"
proof -
  have d: "dim0 dh = N" "dim1 dh = T" "dim2 dh = H"
    using sh by (simp_all add: has_shape3_def)
  have "zeros3 N T D = mk_ten N T D (\<lambda>n t d. if T - 0 \<le> t then el (g_dx (G t)) n d else 0)"
    unfolding zeros3_def by (rule mk_ten_congs) simp_all
  then show ?thesis
    by (simp add: lstm_backward_init_def Let_def c0 d bwd_state_def C0 zeros_def zeros1_def)
qed

text \<open>
  Claim C7. For \<open>dh\<close> of shape \<open>(N, T, H)\<close> with \<open>T \<ge> 1\<close> and a dict that holds a well-shaped
  cache for each of the \<open>T\<close> timesteps, \<open>lstm_backward\<close> returns. The step at timestep \<open>t\<close>
  is \<open>lstm_step_backward\<close> on \<open>dh[t] + dh_carry\<close>, the carried cell gradient and \<open>cache[t]\<close>,
  the carries being those the timesteps \<open>T - 1, \<dots>, t + 1\<close> left (zero at \<open>T - 1\<close>); its
  \<open>dx\<close> is the slice \<open>dx[:, t, :]\<close>; \<open>dWx\<close>, \<open>dWh\<close> and \<open>db\<close> are the sums over all \<open>T\<close> timesteps
  of the steps' \<open>dWx\<close>, \<open>dWh\<close> and \<open>db\<close>; and \<open>dh0\<close> is the hidden carry left after timestep 0.
\<close>

theorem lstm_backward_bptt:
  assumes sh: "has_shape3 dh N T H" and T: "1 \<le> T"
    and ca: "\<forall>t<T. \<exists>c. caches t = Some c \<and> wf_cache N D H c"
  shows "\<exists>dx dh0 dWx dWh db G.
     lstm_backward dh caches = Some (dx, dh0, dWx, dWh, db) \<and>
     has_shape3 dx N T D \<and>
     (\<forall>t<T. bptt_grads dh caches t = Some (G t) \<and> view_t dx t = g_dx (G t)) \<and>
     dWx = mk_mat D (4 * H) (\<lambda>d m. \<Sum>t<T. el (g_dWx (G t)) d m) \<and>
     dWh = mk_mat H (4 * H) (\<lambda>k m. \<Sum>t<T. el (g_dWh (G t)) k m) \<and>
     db = mk_vec (4 * H) (\<lambda>m. \<Sum>t<T. g_db (G t) ! m) \<and>
     map_option fst (bptt dh caches T) = Some dh0"
proof -
  define C where "C = (\<lambda>j. the (bptt dh caches j))"
  define G where "G = (\<lambda>t. the (bptt_grads dh caches t))"
  have d: "dim0 dh = N" "dim1 dh = T" "dim2 dh = H"
    using sh by (simp_all add: has_shape3_def)
  have C: "\<forall>j\<le>T. bptt dh caches j = Some (C j)"
    using bptt_shapes[OF sh ca] unfolding C_def by fastforce
  have Cs: "\<forall>j\<le>T. has_shape (fst (C j)) N H"
    using bptt_shapes[OF sh ca] unfolding C_def by fastforce
  have G: "\<forall>t<T. bptt_grads dh caches t = Some (G t)"
    using bptt_grads_shapes[OF sh ca] unfolding G_def by fastforce
  have Gs: "\<forall>t<T. has_shape (g_dx (G t)) N D"
    using bptt_grads_shapes[OF sh ca] unfolding G_def by fastforce
  obtain c where c0: "caches 0 = Some c" "wf_cache N D H c"
    using ca T by force
  have cD: "ncols (c_x c) = D"
    using c0(2) by (simp add: wf_cache_def has_shape_def)
  have C0: "C 0 = (zeros N H, zeros N H)"
    unfolding C_def by (simp add: d)
  have loop: "foldM (lstm_backward_body dh caches) (rev [0..<dim1 dh]) (bwd_state N T D H C G 0)
         = Some (bwd_state N T D H C G T)"
    using lstm_backward_loop_eq[OF sh ca C G order_refl] by (simp add: d)
  let ?dx = "mk_ten N T D (\<lambda>n t d. if T - T \<le> t then el (g_dx (G t)) n d else 0)"
  let ?dWx = "mk_mat D (4 * H) (\<lambda>d m. \<Sum>i<T. el (g_dWx (G (T - Suc i))) d m)"
  let ?dWh = "mk_mat H (4 * H) (\<lambda>k m. \<Sum>i<T. el (g_dWh (G (T - Suc i))) k m)"
  let ?db = "mk_vec (4 * H) (\<lambda>m. \<Sum>i<T. g_db (G (T - Suc i)) ! m)"
  have CT: "has_shape (fst (C T)) N H"
    using Cs by simp
  have dh0: "iadd (zeros N H) (fst (C T)) = Some (fst (C T))"
  proof -
    have "iadd (zeros N H) (fst (C T)) = Some (mk_mat N H (el (fst (C T))))"
      using CT by (simp add: iadd_same zeros_def has_shape_def cong: mk_mat_congs)
    then show ?thesis
      using mk_mat_el[of "fst (C T)"] CT by (simp add: has_shape_def)
  qed
  have bw: "lstm_backward dh caches = Some (?dx, fst (C T), ?dWx, ?dWh, ?db)"
    unfolding lstm_backward_def
      lstm_backward_init_eq[where G = G and caches = caches and C = C, OF sh c0(1) cD C0]
    by (simp add: loop) (simp add: bwd_state_def dh0)
  have vx: "\<forall>t<T. bptt_grads dh caches t = Some (G t) \<and> view_t ?dx t = g_dx (G t)"
  proof (intro allI impI)
    fix t assume t: "t < T"
    have "view_t ?dx t = mk_mat N D (el (g_dx (G t)))"
      using t by (simp add: view_t_mk_ten)
    also have "\<dots> = g_dx (G t)"
      using mk_mat_el[of "g_dx (G t)"] Gs t by (simp add: has_shape_def)
    finally show "bptt_grads dh caches t = Some (G t) \<and> view_t ?dx t = g_dx (G t)"
      using G t by simp
  qed
  have r1: "?dWx = mk_mat D (4 * H) (\<lambda>d m. \<Sum>t<T. el (g_dWx (G t)) d m)"
    by (rule mk_mat_congs, simp, simp, rule sum_rev_index)
  have r2: "?dWh = mk_mat H (4 * H) (\<lambda>k m. \<Sum>t<T. el (g_dWh (G t)) k m)"
    by (rule mk_mat_congs, simp, simp, rule sum_rev_index)
  have r3: "?db = mk_vec (4 * H) (\<lambda>m. \<Sum>t<T. g_db (G t) ! m)"
    by (rule mk_vec_congs, simp, rule sum_rev_index)
  have cT: "map_option fst (bptt dh caches T) = Some (fst (C T))"
    using C by simp
  have s3: "has_shape3 ?dx N T D"
    by simp
  show ?thesis
    apply (rule exI[of _ ?dx], rule exI[of _ "fst (C T)"], rule exI[of _ ?dWx],
        rule exI[of _ ?dWh], rule exI[of _ ?db], rule exI[of _ G])
    apply (intro conjI)
          apply (rule bw)
         apply (rule s3)
        apply (rule vx)
       apply (rule r1)
      apply (rule r2)
     apply (rule r3)
    apply (rule cT)
    done
qed

lemma ex_step_backward:
  "lstm_step_backward ex_one ex_zero ex_cache =
     Some (ex_dct, ex_zero, ex_zero, ex_dpc, ex_W, ex_W, ex_db)"
proof -
  have d: "nrows ex_one = 1" "ncols ex_one = 1" "nrows ex_zero = 1" "ncols ex_zero = 1"
    by (simp_all add: ex_defs)
  have dct: "dc_total ex_one ex_zero ex_cache = ex_dct"
    unfolding ex_dc_total ex_dct_def ..
  have da: "mk_mat 1 (4 * 1) (dact_el 1 ex_one ex_dct ex_cache) =
      \<lparr>nrows = 1, ncols = 4, rows = [ex_db]\<rparr>"
    by (simp add: dact_el_def ex_cache_def ex_defs eval_simps)
  show ?thesis
    unfolding lstm_step_backward_eq[OF d ex_cache_wf] dct Let_def da
    by (simp add: ex_cache_def ex_defs eval_simps)
qed


lemma ex_step_at:
  "bptt_step_at ex_dh3 [0 \<mapsto> ex_cache] 0 ex_zero ex_zero =
     Some (ex_dct, ex_zero, ex_zero, ex_dpc, ex_W, ex_W, ex_db)"
proof -
  have v: "slice_t ex_dh3 0 = Some ex_one"
    by (simp add: slice_t_def view_t_def ex_defs eval_simps)
  have a: "add_m ex_one ex_zero = Some ex_one"
    by (simp add: add_m_same ex_defs eval_simps)
  show ?thesis
    by (simp add: bptt_step_at_def v a ex_step_backward)
qed

lemma ex_dims: "dim0 ex_dh3 = 1" "dim1 ex_dh3 = 1" "dim2 ex_dh3 = 1"
  by (simp_all add: ex_defs)

lemma ex_bptt_grads:
  "bptt_grads ex_dh3 [0 \<mapsto> ex_cache] 0 =
     Some (ex_dct, ex_zero, ex_zero, ex_dpc, ex_W, ex_W, ex_db)"
  by (simp add: bptt_grads_def ex_dims ex_zeros_Suc ex_step_at)

lemma ex_bptt: "bptt ex_dh3 [0 \<mapsto> ex_cache] 1 = Some (ex_zero, ex_dpc)"
  by (simp add: ex_dims ex_zeros_Suc ex_step_at g_dprev_h_def g_dprev_c_def)

theorem lstm_backward_bptt_witness:
  "\<exists>dx dh0 dWx dWh db.
     lstm_backward ex_dh3 [0 \<mapsto> ex_cache] = Some (dx, dh0, dWx, dWh, db) \<and>
     view_t dx 0 = ex_zero \<and> dh0 = ex_zero \<and> dWx = ex_W \<and> dWh = ex_W \<and> db = ex_db"
proof -
  have ca: "\<forall>t<1. \<exists>c. [0 \<mapsto> ex_cache] (t::nat) = Some c \<and> wf_cache 1 1 1 c"
    using ex_cache_wf by auto
  from lstm_backward_bptt[OF ex_shape3(2) order_refl ca]
  obtain dx dh0 dWx dWh db G where
    bw: "lstm_backward ex_dh3 [0 \<mapsto> ex_cache] = Some (dx, dh0, dWx, dWh, db)" and
    g: "\<forall>t<1. bptt_grads ex_dh3 [0 \<mapsto> ex_cache] t = Some (G t) \<and> view_t dx t = g_dx (G t)" and
    r1: "dWx = mk_mat 1 (4 * 1) (\<lambda>d m. \<Sum>t<1. el (g_dWx (G t)) d m)" and
    r2: "dWh = mk_mat 1 (4 * 1) (\<lambda>k m. \<Sum>t<1. el (g_dWh (G t)) k m)" and
    r3: "db = mk_vec (4 * 1) (\<lambda>m. \<Sum>t<1. g_db (G t) ! m)" and
    c: "map_option fst (bptt ex_dh3 [0 \<mapsto> ex_cache] 1) = Some dh0"
    by (elim exE conjE) (rule that; assumption)
  have G0: "G 0 = (ex_dct, ex_zero, ex_zero, ex_dpc, ex_W, ex_W, ex_db)"
    using g ex_bptt_grads by simp
  have "view_t dx 0 = ex_zero"
    using g by (simp add: G0 g_dx_def)
  moreover have "dh0 = ex_zero"
    using c unfolding ex_bptt by simp
  moreover have "dWx = ex_W" "dWh = ex_W"
    unfolding r1 r2 by (simp_all add: G0 g_dWx_def g_dWh_def ex_defs eval_simps)
  moreover have "db = ex_db"
    unfolding r3 by (simp add: G0 g_db_def ex_defs eval_simps)
  ultimately show ?thesis
    using bw by simp
qed

section \<open>What a backward step writes\<close>

lemma rd2_Some: "rd2 \<sigma> a = Some m \<longleftrightarrow> a < length \<sigma> \<and> \<sigma> ! a = Arr2 m"
  by (auto simp: rd2_def split: arr.splits)

lemma rd1_Some: "rd1 \<sigma> a = Some v \<longleftrightarrow> a < length \<sigma> \<and> \<sigma> ! a = Arr1 v"
  by (auto simp: rd1_def split: arr.splits)

lemma rd3_Some: "rd3 \<sigma> a = Some x \<longleftrightarrow> a < length \<sigma> \<and> \<sigma> ! a = Arr3 x"
  by (auto simp: rd3_def split: arr.splits)

lemma rd_cache_Some_addrs:
  "rd_cache \<sigma> cr = Some cache \<Longrightarrow> \<forall>a\<in>set (cache_addrs cr). a < length \<sigma>"
  by (auto simp: rd_cache_def bind_eq_Some_conv cache_addrs_def rd2_Some rd1_Some)

lemma rd2_cong: "a < length \<sigma> \<Longrightarrow> a < length \<sigma>' \<Longrightarrow> \<sigma>' ! a = \<sigma> ! a \<Longrightarrow> rd2 \<sigma>' a = rd2 \<sigma> a"
  by (simp add: rd2_def)

lemma rd1_cong: "a < length \<sigma> \<Longrightarrow> a < length \<sigma>' \<Longrightarrow> \<sigma>' ! a = \<sigma> ! a \<Longrightarrow> rd1 \<sigma>' a = rd1 \<sigma> a"
  by (simp add: rd1_def)

lemma rd_cache_cong:
  assumes "\<forall>a\<in>set (cache_addrs cr). a < length \<sigma> \<and> a < length \<sigma>' \<and> \<sigma>' ! a = \<sigma> ! a"
  shows "rd_cache \<sigma>' cr = rd_cache \<sigma> cr"
proof -
  have "rd2 \<sigma>' (r_x cr) = rd2 \<sigma> (r_x cr)" "rd2 \<sigma>' (r_prev_h cr) = rd2 \<sigma> (r_prev_h cr)"
    "rd2 \<sigma>' (r_prev_c cr) = rd2 \<sigma> (r_prev_c cr)" "rd2 \<sigma>' (r_next_h cr) = rd2 \<sigma> (r_next_h cr)"
    "rd2 \<sigma>' (r_next_c cr) = rd2 \<sigma> (r_next_c cr)" "rd2 \<sigma>' (r_Wx cr) = rd2 \<sigma> (r_Wx cr)"
    "rd2 \<sigma>' (r_Wh cr) = rd2 \<sigma> (r_Wh cr)" "rd1 \<sigma>' (r_b cr) = rd1 \<sigma> (r_b cr)"
    "rd2 \<sigma>' (r_activation cr) = rd2 \<sigma> (r_activation cr)"
    "rd2 \<sigma>' (r_input cr) = rd2 \<sigma> (r_input cr)" "rd2 \<sigma>' (r_forget cr) = rd2 \<sigma> (r_forget cr)"
    "rd2 \<sigma>' (r_output cr) = rd2 \<sigma> (r_output cr)"
    "rd2 \<sigma>' (r_block_input cr) = rd2 \<sigma> (r_block_input cr)"
    using assms by (simp_all add: cache_addrs_def rd2_def rd1_def)
  then show ?thesis
    by (simp add: rd_cache_def)
qed

lemma lstm_step_backward_st_cases:
  assumes "lstm_step_backward_st \<sigma> a_dh a_dc cr = (\<sigma>', r)"
  shows "(\<sigma>' = \<sigma> \<and> r = None) \<or>
     (\<exists>dnext_h dnext_c cache v.
        rd2 \<sigma> a_dh = Some dnext_h \<and> rd2 \<sigma> a_dc = Some dnext_c \<and> rd_cache \<sigma> cr = Some cache \<and>
        dnext_c_update dnext_h dnext_c cache = Some v \<and>
        \<sigma>' = \<sigma>[a_dc := Arr2 v] \<and> r = None) \<or>
     (\<exists>dnext_h dnext_c cache v dnext_h' cache' da dx dprev_h dprev_c dWx dWh db.
        rd2 \<sigma> a_dh = Some dnext_h \<and> rd2 \<sigma> a_dc = Some dnext_c \<and> rd_cache \<sigma> cr = Some cache \<and>
        dnext_c_update dnext_h dnext_c cache = Some v \<and>
        rd2 (\<sigma>[a_dc := Arr2 v]) a_dh = Some dnext_h' \<and>
        rd_cache (\<sigma>[a_dc := Arr2 v]) cr = Some cache' \<and>
        lstm_step_backward_rest dnext_h' v cache' = Some (da, dx, dprev_h, dprev_c, dWx, dWh, db) \<and>
        \<sigma>' = \<sigma>[a_dc := Arr2 v] @ [Arr2 dx, Arr2 dprev_h, Arr2 dprev_c, Arr2 dWx, Arr2 dWh, Arr1 db] \<and>
        r = Some (length \<sigma>, length \<sigma> + 1, length \<sigma> + 2, length \<sigma> + 3, length \<sigma> + 4,
             length \<sigma> + 5))"
proof -
  let ?r1 = "do {
       dnext_h \<leftarrow> rd2 \<sigma> a_dh;
       dnext_c \<leftarrow> rd2 \<sigma> a_dc;
       cache \<leftarrow> rd_cache \<sigma> cr;
       dnext_c_update dnext_h dnext_c cache }"
  show ?thesis
  proof (cases ?r1)
    case None
    then show ?thesis
      using assms by (simp add: lstm_step_backward_st_def on_value_def)
  next
    case (Some v)
    then obtain dnext_h dnext_c cache where
      r: "rd2 \<sigma> a_dh = Some dnext_h" "rd2 \<sigma> a_dc = Some dnext_c" "rd_cache \<sigma> cr = Some cache"
         "dnext_c_update dnext_h dnext_c cache = Some v"
      by (auto simp: bind_eq_Some_conv)
    let ?s = "\<sigma>[a_dc := Arr2 v]"
    let ?r2 = "do {
       dnext_h \<leftarrow> rd2 ?s a_dh;
       dnext_c \<leftarrow> rd2 ?s a_dc;
       cache \<leftarrow> rd_cache ?s cr;
       lstm_step_backward_rest dnext_h dnext_c cache }"
    show ?thesis
    proof (cases ?r2)
      case None
      then have "\<sigma>' = ?s \<and> r = None"
        using assms Some by (simp add: lstm_step_backward_st_def on_value_def Let_def)
      then show ?thesis
        using r by blast
    next
      case s2: (Some w)
      obtain da dx dprev_h dprev_c dWx dWh db where
        w: "w = (da, dx, dprev_h, dprev_c, dWx, dWh, db)"
        by (cases w)
      from s2 obtain dnext_h' cache' where
        r2: "rd2 ?s a_dh = Some dnext_h'" "rd_cache ?s cr = Some cache'"
            "lstm_step_backward_rest dnext_h' v cache' = Some w"
        using r(2) by (auto simp: bind_eq_Some_conv rd2_Some)
      have "\<sigma>' = ?s @ [Arr2 dx, Arr2 dprev_h, Arr2 dprev_c, Arr2 dWx, Arr2 dWh, Arr1 db] \<and>
         r = Some (length \<sigma>, length \<sigma> + 1, length \<sigma> + 2, length \<sigma> + 3, length \<sigma> + 4,
             length \<sigma> + 5)"
        using assms Some s2
        by (auto simp: lstm_step_backward_st_def on_value_def Let_def w alloc_def eval_nat_numeral)
      then show ?thesis
        using r r2 w by blast
    qed
  qed
qed

lemma rd_cache_frame:
  assumes "\<forall>a<length \<sigma>. a \<noteq> w \<longrightarrow> \<sigma>' ! a = \<sigma> ! a" "length \<sigma> \<le> length \<sigma>'"
    "rd_cache \<sigma> cr = Some cache" "w \<notin> set (cache_addrs cr)"
  shows "rd_cache \<sigma>' cr = rd_cache \<sigma> cr"
proof (rule rd_cache_cong, rule ballI)
  fix a assume "a \<in> set (cache_addrs cr)"
  then have "a < length \<sigma>" "a \<noteq> w"
    using rd_cache_Some_addrs[OF assms(3)] assms(4) by auto
  then show "a < length \<sigma> \<and> a < length \<sigma>' \<and> \<sigma>' ! a = \<sigma> ! a"
    using assms(1,2) by simp
qed

lemma rd2_frame:
  assumes "\<forall>a<length \<sigma>. a \<noteq> w \<longrightarrow> \<sigma>' ! a = \<sigma> ! a" "length \<sigma> \<le> length \<sigma>'"
    "rd2 \<sigma> a = Some m" "w \<noteq> a"
  shows "rd2 \<sigma>' a = rd2 \<sigma> a"
proof -
  have "a < length \<sigma>"
    using assms(3) by (simp add: rd2_Some)
  then show ?thesis
    using rd2_cong[of a \<sigma> \<sigma>'] assms(1,2,4) by simp
qed

text \<open>
  What a backward step writes, however it ends: nothing below the end of the store it was
  given except the cell of \<open>dnext_c\<close>; and the addresses it returns are new.
\<close>

lemma lstm_step_backward_st_writes:
  assumes "lstm_step_backward_st \<sigma> a_dh a_dc cr = (\<sigma>', r)"
  shows "length \<sigma> \<le> length \<sigma>'" "\<forall>a<length \<sigma>. a \<noteq> a_dc \<longrightarrow> \<sigma>' ! a = \<sigma> ! a"
    "r \<noteq> None \<longrightarrow> r = Some (length \<sigma>, length \<sigma> + 1, length \<sigma> + 2, length \<sigma> + 3,
        length \<sigma> + 4, length \<sigma> + 5) \<and> length \<sigma>' = length \<sigma> + 6"
  using lstm_step_backward_st_cases[OF assms]
  by (auto simp: nth_append)

text \<open>
  Claim C4, amended. However a call of \<open>lstm_step_backward\<close> ends, it leaves every array
  other than \<open>dnext_c\<close> as it was, so the arrays of the cache and \<open>dnext_h\<close> are unchanged
  whenever they do not share their storage with \<open>dnext_c\<close>. A call that returns returns
  six new arrays, and has overwritten \<open>dnext_c\<close> in place with what
  \<open>dnext_c += dnext_h * output * (1 - tanh(next_c)**2)\<close> computes from the arrays as they
  were on entry.
\<close>

theorem lstm_step_backward_st_frame:
  assumes "lstm_step_backward_st \<sigma> a_dnext_h a_dnext_c cr = (\<sigma>', r)"
  shows "(\<forall>a<length \<sigma>. a \<noteq> a_dnext_c \<longrightarrow> \<sigma>' ! a = \<sigma> ! a) \<and>
     (a_dnext_c \<notin> set (cache_addrs cr) \<longrightarrow> rd_cache \<sigma>' cr = rd_cache \<sigma> cr) \<and>
     (a_dnext_c \<noteq> a_dnext_h \<longrightarrow> rd2 \<sigma>' a_dnext_h = rd2 \<sigma> a_dnext_h) \<and>
     (r \<noteq> None \<longrightarrow>
        r = Some (length \<sigma>, length \<sigma> + 1, length \<sigma> + 2, length \<sigma> + 3, length \<sigma> + 4,
                  length \<sigma> + 5) \<and>
        length \<sigma>' = length \<sigma> + 6 \<and>
        (\<exists>dnext_h dnext_c cache v.
           rd2 \<sigma> a_dnext_h = Some dnext_h \<and> rd2 \<sigma> a_dnext_c = Some dnext_c \<and>
           rd_cache \<sigma> cr = Some cache \<and> dnext_c_update dnext_h dnext_c cache = Some v \<and>
           \<sigma>' ! a_dnext_c = Arr2 v))"
proof -
  note c = lstm_step_backward_st_cases[OF assms]
  note w = lstm_step_backward_st_writes[OF assms]
  have same: "\<sigma>' = \<sigma>" if "rd2 \<sigma> a_dnext_h = None \<or> rd_cache \<sigma> cr = None"
    using c that by auto
  have fc: "a_dnext_c \<notin> set (cache_addrs cr) \<longrightarrow> rd_cache \<sigma>' cr = rd_cache \<sigma> cr"
  proof (cases "rd_cache \<sigma> cr")
    case None
    then show ?thesis using same by simp
  next
    case (Some cache)
    then show ?thesis
      using rd_cache_frame[OF w(2,1) Some] by simp
  qed
  have fh: "a_dnext_c \<noteq> a_dnext_h \<longrightarrow> rd2 \<sigma>' a_dnext_h = rd2 \<sigma> a_dnext_h"
  proof (cases "rd2 \<sigma> a_dnext_h")
    case None
    then show ?thesis using same by simp
  next
    case (Some m)
    then show ?thesis
      using rd2_frame[OF w(2,1) Some] by simp
  qed
  have ret: "r \<noteq> None \<longrightarrow>
        (\<exists>dnext_h dnext_c cache v.
           rd2 \<sigma> a_dnext_h = Some dnext_h \<and> rd2 \<sigma> a_dnext_c = Some dnext_c \<and>
           rd_cache \<sigma> cr = Some cache \<and> dnext_c_update dnext_h dnext_c cache = Some v \<and>
           \<sigma>' ! a_dnext_c = Arr2 v)"
  proof
    assume "r \<noteq> None"
    with c obtain dnext_h dnext_c cache v dx dprev_h dprev_c dWx dWh db where
      r: "rd2 \<sigma> a_dnext_h = Some dnext_h" "rd2 \<sigma> a_dnext_c = Some dnext_c"
         "rd_cache \<sigma> cr = Some cache" "dnext_c_update dnext_h dnext_c cache = Some v" and
      s: "\<sigma>' = \<sigma>[a_dnext_c := Arr2 v]
            @ [Arr2 dx, Arr2 dprev_h, Arr2 dprev_c, Arr2 dWx, Arr2 dWh, Arr1 db]"
      by auto
    have "a_dnext_c < length \<sigma>"
      using r(2) by (simp add: rd2_Some)
    then have "\<sigma>' ! a_dnext_c = Arr2 v"
      by (simp add: s nth_append)
    then show "\<exists>dnext_h dnext_c cache v.
           rd2 \<sigma> a_dnext_h = Some dnext_h \<and> rd2 \<sigma> a_dnext_c = Some dnext_c \<and>
           rd_cache \<sigma> cr = Some cache \<and> dnext_c_update dnext_h dnext_c cache = Some v \<and>
           \<sigma>' ! a_dnext_c = Arr2 v"
      using r by blast
  qed
  show ?thesis
    using w(2,3) fc fh ret by blast
qed

lemma lstm_step_backward_st_noalias:
  assumes r: "rd2 \<sigma> a_dh = Some dh" "rd2 \<sigma> a_dc = Some dc" "rd_cache \<sigma> cr = Some cache"
    and n: "a_dc \<noteq> a_dh" "a_dc \<notin> set (cache_addrs cr)"
    and v: "lstm_step_backward dh dc cache = Some (dc', dx, dph, dpc, dWx, dWh, db)"
  shows "lstm_step_backward_st \<sigma> a_dh a_dc cr =
     (\<sigma>[a_dc := Arr2 dc'] @ [Arr2 dx, Arr2 dph, Arr2 dpc, Arr2 dWx, Arr2 dWh, Arr1 db],
      Some (length \<sigma>, length \<sigma> + 1, length \<sigma> + 2, length \<sigma> + 3, length \<sigma> + 4,
            length \<sigma> + 5))"
proof -
  from v obtain da where
    u: "dnext_c_update dh dc cache = Some dc'" and
    w: "lstm_step_backward_rest dh dc' cache = Some (da, dx, dph, dpc, dWx, dWh, db)"
    by (auto simp: lstm_step_backward_def bind_eq_Some_conv)
  let ?s = "\<sigma>[a_dc := Arr2 dc']"
  have lt: "a_dh < length \<sigma>" "a_dc < length \<sigma>"
    using r(1,2) by (simp_all add: rd2_Some)
  have r1: "rd2 ?s a_dh = Some dh"
    using r(1) n(1) by (simp add: rd2_Some)
  have r2: "rd2 ?s a_dc = Some dc'"
    using lt(2) by (simp add: rd2_Some)
  have "rd_cache ?s cr = rd_cache \<sigma> cr"
    by (rule rd_cache_frame[OF _ _ r(3) n(2)]) simp_all
  then have r3: "rd_cache ?s cr = Some cache"
    by (simp add: r(3))
  show ?thesis
    by (simp add: lstm_step_backward_st_def on_value_def r u Let_def r1 r2 r3 w alloc_def)
qed

lemma ex_rd_cache: "rd_cache ex_store ex_cref = Some ex_cache"
  by (simp add: rd_cache_def rd2_def rd1_def ex_store_def ex_cref_def ex_cache_def)

lemma ex_step_st:
  "lstm_step_backward_st ex_store 0 1 ex_cref = (ex_store_after, Some (15, 16, 17, 18, 19, 20))"
proof -
  have r: "rd2 ex_store 0 = Some ex_one" "rd2 ex_store 1 = Some ex_zero"
    by (simp_all add: rd2_def ex_store_def)
  have n: "(1::nat) \<noteq> 0" "1 \<notin> set (cache_addrs ex_cref)"
    by (simp_all add: cache_addrs_def ex_cref_def)
  show ?thesis
    unfolding lstm_step_backward_st_noalias[OF r ex_rd_cache n ex_step_backward]
    by (simp add: ex_store_def ex_store_after_def)
qed

lemma ex_dct_nonzero: "ex_dct \<noteq> ex_zero"
proof -
  have "\<bar>tanh (1::real)\<bar> < 1"
    using tanh_real_lt_1[of 1] tanh_real_gt_neg1[of 1] by simp
  then have "(tanh (1::real))\<^sup>2 < 1"
    by (simp add: abs_square_less_1)
  then show ?thesis
    by (simp add: ex_defs)
qed

theorem lstm_step_backward_mutates_counterexample:
  "ex_store ! 1 = Arr2 ex_zero \<and>
   lstm_step_backward_st ex_store 0 1 ex_cref = (ex_store_after, Some (15, 16, 17, 18, 19, 20)) \<and>
   ex_store_after ! 1 = Arr2 ex_dct \<and> ex_dct \<noteq> ex_zero"
  using ex_step_st ex_dct_nonzero by (simp add: ex_store_def ex_store_after_def)

theorem lstm_step_backward_st_frame_witness:
  "ex_store_after ! 0 = ex_store ! 0 \<and>
   rd_cache ex_store_after ex_cref = Some ex_cache \<and>
   length ex_store_after = length ex_store + 6"
proof -
  have n: "1 \<notin> set (cache_addrs ex_cref)" "(0::nat) < length ex_store"
    by (simp_all add: cache_addrs_def ex_cref_def ex_store_def)
  from lstm_step_backward_st_frame[OF ex_step_st] n
  show ?thesis
    by (simp add: ex_rd_cache)
qed

section \<open>What a backward pass writes\<close>

lemma lstm_step_backward_st_writes_conj:
  assumes "lstm_step_backward_st \<sigma> a_dh a_dc cr = (\<sigma>', r)"
  shows "length \<sigma> \<le> length \<sigma>' \<and> (\<forall>a<length \<sigma>. a \<noteq> a_dc \<longrightarrow> \<sigma>' ! a = \<sigma> ! a) \<and>
    (\<forall>a1 a2 a3 a4 a5 a6. r = Some (a1, a2, a3, a4, a5, a6) \<longrightarrow> length \<sigma> \<le> a3)"
  using lstm_step_backward_st_writes[OF assms] by auto

lemma lstm_backward_body_st_frame:
  assumes "lstm_backward_body_st a_dh cache a_dx a_dWx a_dWh a_db i (\<sigma>, a_dprev, a_dprev_c)
             = (\<sigma>', r)"
    and "n \<le> length \<sigma>" "n \<le> a_dx" "n \<le> a_dWx" "n \<le> a_dWh" "n \<le> a_db" "n \<le> a_dprev_c"
  shows "length \<sigma> \<le> length \<sigma>' \<and> (\<forall>a<n. \<sigma>' ! a = \<sigma> ! a) \<and>
    (\<forall>p c. r = Some (p, c) \<longrightarrow> n \<le> c)"
  using assms
  apply (simp add: lstm_backward_body_st_def on_value_def Let_def alloc_def
      split: option.splits prod.splits)
  apply (auto dest!: lstm_step_backward_st_writes_conj simp: nth_append)
  done

lemma lstm_backward_loop_st_frame:
  assumes "foldM_st (lstm_backward_body_st a_dh cache a_dx a_dWx a_dWh a_db) js
             (\<sigma>, a_dprev, a_dprev_c) = (\<sigma>', r)"
    and "n \<le> length \<sigma>" "n \<le> a_dx" "n \<le> a_dWx" "n \<le> a_dWh" "n \<le> a_db" "n \<le> a_dprev_c"
  shows "length \<sigma> \<le> length \<sigma>' \<and> (\<forall>a<n. \<sigma>' ! a = \<sigma> ! a)"
  using assms
proof (induction js arbitrary: \<sigma> a_dprev a_dprev_c)
  case Nil
  then show ?case by simp
next
  case (Cons j js)
  obtain \<sigma>1 r1 where
    b: "lstm_backward_body_st a_dh cache a_dx a_dWx a_dWh a_db j (\<sigma>, a_dprev, a_dprev_c)
          = (\<sigma>1, r1)"
    by (cases "lstm_backward_body_st a_dh cache a_dx a_dWx a_dWh a_db j (\<sigma>, a_dprev, a_dprev_c)")
  note f = lstm_backward_body_st_frame[OF b Cons.prems(2-7)]
  show ?case
  proof (cases r1)
    case None
    then have "\<sigma>' = \<sigma>1"
      using Cons.prems(1) b by simp
    then show ?thesis
      using f by simp
  next
    case (Some pc)
    obtain p c where pc: "pc = (p, c)"
      by (cases pc)
    have l: "foldM_st (lstm_backward_body_st a_dh cache a_dx a_dWx a_dWh a_db) js (\<sigma>1, p, c)
          = (\<sigma>', r)"
      using Cons.prems(1) b Some pc by simp
    have n1: "n \<le> length \<sigma>1" "n \<le> c"
      using f Cons.prems(2) Some pc by auto
    from Cons.IH[OF l n1(1) Cons.prems(3-6) n1(2)] f
    show ?thesis
      by auto
  qed
qed

lemma lstm_backward_st_frame:
  assumes "lstm_backward_st \<sigma> a_dh cache = (\<sigma>', r)"
  shows "length \<sigma> \<le> length \<sigma>'" "\<forall>a<length \<sigma>. \<sigma>' ! a = \<sigma> ! a"
    "rd3 \<sigma> a_dh = None \<longrightarrow> \<sigma>' = \<sigma>"
proof -
  let ?r0 = "do {
       dh \<leftarrow> rd3 \<sigma> a_dh;
       c0 \<leftarrow> cache 0;
       x0 \<leftarrow> rd2 \<sigma> (r_x c0);
       Some (dim0 dh, dim1 dh, dim2 dh, ncols x0) }"
  have none: "\<sigma>' = \<sigma>" if "?r0 = None"
    using assms that by (simp add: lstm_backward_st_def on_value_def)
  show "rd3 \<sigma> a_dh = None \<longrightarrow> \<sigma>' = \<sigma>"
    using none by simp
  have "length \<sigma> \<le> length \<sigma>' \<and> (\<forall>a<length \<sigma>. \<sigma>' ! a = \<sigma> ! a)"
  proof (cases ?r0)
    case None
    then show ?thesis using none by simp
  next
    case (Some q)
    obtain N T H D where q: "q = (N, T, H, D)"
      by (cases q)
    let ?s = "\<sigma> @ [Arr3 (zeros3 N T D), Arr2 (zeros N H), Arr2 (zeros D (4 * H)),
       Arr2 (zeros H (4 * H)), Arr1 (zeros1 (4 * H)), Arr2 (zeros N H), Arr2 (zeros N H),
       Arr2 (zeros N H)]"
    let ?n = "length \<sigma>"
    obtain \<sigma>1 r1 where
      l: "foldM_st (lstm_backward_body_st a_dh cache ?n (Suc (Suc ?n))
           (Suc (Suc (Suc ?n))) (Suc (Suc (Suc (Suc ?n))))) (rev [0..<T])
           (?s, Suc (Suc (Suc (Suc (Suc ?n)))), Suc (Suc (Suc (Suc (Suc (Suc (Suc ?n)))))))
           = (\<sigma>1, r1)"
      using prod.exhaust by blast
    have f: "length ?s \<le> length \<sigma>1 \<and> (\<forall>a<?n. \<sigma>1 ! a = ?s ! a)"
      by (rule lstm_backward_loop_st_frame[OF l]) simp_all
    have "\<sigma>' = \<sigma>1 \<or> (\<exists>v. \<sigma>' = \<sigma>1[?n + 1 := Arr2 v])"
      using assms Some q l
      by (auto simp: lstm_backward_st_def on_value_def alloc_def Let_def
          split: option.splits)
    then show ?thesis
      using f by (auto simp: nth_append)
  qed
  then show "length \<sigma> \<le> length \<sigma>'" "\<forall>a<length \<sigma>. \<sigma>' ! a = \<sigma> ! a"
    by simp_all
qed

text \<open>
  Claim C10. However a call of \<open>lstm_backward\<close> ends, the array \<open>dh\<close> of its caller holds
  what it held before the call, and so does every other array that existed before the
  call: the arrays \<open>lstm_step_backward\<close> and the accumulations write to were all
  allocated during the call.
\<close>

theorem lstm_backward_keeps_dh:
  assumes "lstm_backward_st \<sigma> a_dh cache = (\<sigma>', r)"
  shows "rd3 \<sigma>' a_dh = rd3 \<sigma> a_dh \<and> take (length \<sigma>) \<sigma>' = \<sigma>"
proof -
  note f = lstm_backward_st_frame[OF assms]
  have t: "take (length \<sigma>) \<sigma>' = \<sigma>"
    using f(1,2) by (simp add: list_eq_iff_nth_eq)
  have "rd3 \<sigma>' a_dh = rd3 \<sigma> a_dh"
  proof (cases "rd3 \<sigma> a_dh")
    case None
    then show ?thesis using f(3) by simp
  next
    case (Some dh)
    then have "a_dh < length \<sigma>"
      by (simp add: rd3_Some)
    then show ?thesis
      using f(1,2) by (simp add: rd3_def)
  qed
  then show ?thesis
    using t by simp
qed

lemma ex_body_st:
  "lstm_backward_body_st 0 [0 \<mapsto> ex_cref] 15 17 18 19 0 (ex_store3_zeros, 20, 22)
   = (ex_store3_after, Some (25, 26))"
proof -
  let ?s = "ex_store3_zeros"
  have len: "length ?s = 23"
    by (simp add: ex_store3_def ex_store3_zeros_def)
  have v: "slice_t ex_dh3 0 = Some ex_one"
    by (simp add: slice_t_def view_t_def ex_defs eval_simps)
  have a: "add_m ex_one ex_zero = Some ex_one"
    by (simp add: add_m_same ex_defs eval_simps)
  have r0: "rd3 ?s 0 = Some ex_dh3" "rd2 ?s 20 = Some ex_zero"
    by (simp_all add: rd3_def rd2_def ex_store3_def ex_store3_zeros_def)
  let ?t = "?s @ [Arr2 ex_one]"
  have r: "rd2 ?t 23 = Some ex_one" "rd2 ?t 22 = Some ex_zero"
    by (simp_all add: rd2_def ex_store3_def ex_store3_zeros_def)
  have c: "rd_cache ?t ex_cref = Some ex_cache"
    by (simp add: rd_cache_def rd2_def rd1_def ex_store3_def ex_store3_zeros_def ex_cref_def
        ex_cache_def)
  have n: "(22::nat) \<noteq> 23" "22 \<notin> set (cache_addrs ex_cref)"
    by (simp_all add: cache_addrs_def ex_cref_def)
  note st = lstm_step_backward_st_noalias[OF r c n ex_step_backward]
  have lt: "length ?t = 24"
    by (simp add: len)
  have i1: "iadd_t ex_dx3 0 ex_zero = Some ex_dx3"
    by (simp add: iadd_t_def zeros3_def fits_def bel_def ex_defs eval_simps)
  have i2: "iadd_v ex_b ex_db = Some ex_db"
    by (simp add: iadd_v_same zeros1_def ex_defs eval_simps)
  have i3: "iadd ex_W ex_W = Some ex_W"
    by (simp add: iadd_same zeros_def ex_defs eval_simps)
  show ?thesis
    apply (simp add: lstm_backward_body_st_def on_value_def r0 v a alloc_def len st lt)
    apply (simp add: ex_store3_zeros_def ex_store3_def ex_store3_after_def rd1_def rd2_def rd3_def
       i1 i2 i3)
    done
qed

lemma ex_backward_st:
  "lstm_backward_st ex_store3 0 [0 \<mapsto> ex_cref] = (ex_store3_after, Some (15, 16, 17, 18, 19))"
proof -
  have r: "rd3 ex_store3 0 = Some ex_dh3" "rd2 ex_store3 (r_x ex_cref) = Some ex_zero"
    by (simp_all add: rd3_def rd2_def ex_store3_def ex_cref_def)
  have d: "ncols ex_zero = 1" "length ex_store3 = 15"
    by (simp_all add: ex_defs ex_store3_def)
  have z: "zeros3 1 1 1 = ex_dx3" "zeros 1 (4 * 1) = ex_W" "zeros1 (4 * 1) = ex_b"
    by (simp_all add: zeros3_def zeros_def zeros1_def ex_defs eval_simps)
  have f: "rd2 ex_store3_after 16 = Some ex_zero" "rd2 ex_store3_after 25 = Some ex_zero"
    by (simp_all add: rd2_def ex_store3_after_def ex_store3_def)
  have i: "iadd ex_zero ex_zero = Some ex_zero"
    by (simp add: iadd_same ex_defs eval_simps)
  have u: "ex_store3_after[16 := Arr2 ex_zero] = ex_store3_after"
    by (simp add: ex_store3_after_def ex_store3_def)
  show ?thesis
    unfolding lstm_backward_st_def
    apply (simp only: r bind.bind_lunit fun_upd_same ex_dims d z ex_zeros on_value_def option.case
       prod.case alloc_def Let_def length_append list.size append_assoc)
    apply (simp add: ex_store3_zeros_def[symmetric] ex_body_st f i u)
    done
qed

theorem lstm_backward_keeps_dh_witness:
  "lstm_backward_st ex_store3 0 [0 \<mapsto> ex_cref] = (ex_store3_after, Some (15, 16, 17, 18, 19)) \<and>
   rd3 ex_store3 0 = Some ex_dh3 \<and> rd3 ex_store3_after 0 = Some ex_dh3 \<and>
   take 15 ex_store3_after = ex_store3"
proof -
  have r: "rd3 ex_store3 0 = Some ex_dh3" "length ex_store3 = 15"
    by (simp_all add: rd3_def ex_store3_def)
  from lstm_backward_keeps_dh[OF ex_backward_st] r
  show ?thesis
    by (simp add: ex_backward_st)
qed

end
